theory Spec2Isabelle
  imports Complex_Main "HOL-Library.List_Lexorder" "HOL-Library.Char_ord" "HOL-Library.Sublist"
begin

section \<open>Data model\<close>

text \<open>
  The optimizer of \<^verbatim>\<open>lambo/optimizers/eo_direct.py\<close> works on parallel NumPy arrays:
  an array of candidate objects, a matrix of objective values (one row per candidate)
  and an array of raw sequences. Arrays are lists here; a row of the objective matrix
  is a list of reals (finite floating-point values, compared and negated exactly).
  An exception is a value \<open>Inl e\<close> of the result type.
\<close>

datatype error = AssertionError | IndexError | InsufficientPopulationError | ValueError

record candidate =
  uuid :: nat
  wild_name :: string
  mutant_residue_seq :: string

subsection \<open>NumPy indexing\<close>

text \<open>
  \<^verbatim>\<open>arr[mask]\<close> with a boolean mask selects the entries whose mask bit is set, and raises
  IndexError when the mask's length differs from the array's.
\<close>

definition mask_select :: "'a list \<Rightarrow> bool list \<Rightarrow> 'a list" where
  "mask_select xs msk = map fst (filter snd (zip xs msk))"

definition bool_index :: "'a list \<Rightarrow> bool list \<Rightarrow> error + 'a list" where
  "bool_index xs msk =
     (if length msk = length xs then Inr (mask_select xs msk) else Inl IndexError)"

section \<open>The Pareto frontier\<close>

text \<open>
  Modelled from the spec: \<^verbatim>\<open>pareto.is_non_dominated\<close> is a function of the botorch
  library, which is not among the sources. Section 4.1 of the specification gives the
  test that it stands for: a point is dominated if some other point is weakly better in
  every coordinate and strictly better in at least one; the utility assumes maximization
  (source comment, line 29), so better means greater. Identical vectors do not dominate
  one another and are all kept.
\<close>

definition dominates :: "real list \<Rightarrow> real list \<Rightarrow> bool" where
  "dominates y1 y2 =
     (list_all2 (\<lambda>a b. a \<ge> b) y1 y2 \<and> list_ex (\<lambda>(a, b). a > b) (zip y1 y2))"

definition is_non_dominated :: "real list list \<Rightarrow> bool list" where
  "is_non_dominated Y = map (\<lambda>y. \<not> list_ex (\<lambda>z. dominates z y) Y) Y"

text \<open>
  \<^verbatim>\<open>pareto_frontier(candidate_pool, obj_vals, maximize=False)\<close>, lines 20 to 34. The local
  variable \<^verbatim>\<open>pareto_mask\<close> is a definition of its own. The mask has the length of
  \<^verbatim>\<open>obj_vals\<close>, which the assertion makes the length of \<^verbatim>\<open>candidate_pool\<close>, so neither
  selection can raise.
\<close>

definition pareto_mask :: "bool \<Rightarrow> real list list \<Rightarrow> bool list" where
  "pareto_mask maximize obj_vals =
     (if maximize then is_non_dominated obj_vals
      else is_non_dominated (map (map uminus) obj_vals))"

definition pareto_frontier ::
  "'c list \<Rightarrow> real list list \<Rightarrow> bool \<Rightarrow> error + ('c list \<times> real list list)" where
  "pareto_frontier candidate_pool obj_vals maximize =
     (if length candidate_pool \<noteq> length obj_vals then Inl AssertionError
      else if length candidate_pool = 1 then Inr (candidate_pool, obj_vals)
      else Inr (mask_select candidate_pool (pareto_mask maximize obj_vals),
                mask_select obj_vals (pareto_mask maximize obj_vals)))"

text \<open>
  The dominance test of section 4.1 in the specification's words, for a chosen direction:
  \<open>w\<close> dominates \<open>v\<close> when it is weakly better in every coordinate and strictly better in
  at least one, where better is greater under maximize and smaller under minimize.
\<close>

definition spec_dominates :: "bool \<Rightarrow> real list \<Rightarrow> real list \<Rightarrow> bool" where
  "spec_dominates maximize w v =
     (list_all2 (\<lambda>a b. if maximize then a \<ge> b else a \<le> b) w v \<and>
      list_ex (\<lambda>(a, b). if maximize then a > b else a < b) (zip w v))"

definition spec_non_dominated :: "bool \<Rightarrow> real list list \<Rightarrow> real list \<Rightarrow> bool" where
  "spec_non_dominated maximize obj_vals v = (\<not> list_ex (\<lambda>w. spec_dominates maximize w v) obj_vals)"

text \<open>Applying the frontier to its own output; an error of the first call propagates.\<close>

definition frontier_twice ::
  "'c list \<Rightarrow> real list list \<Rightarrow> bool \<Rightarrow> error + ('c list \<times> real list list)" where
  "frontier_twice candidate_pool obj_vals maximize =
     (case pareto_frontier candidate_pool obj_vals maximize of
        Inl e \<Rightarrow> Inl e
      | Inr (cands, objs) \<Rightarrow> pareto_frontier cands objs maximize)"

section \<open>NumPy operations of the round loop\<close>

text \<open>
  Sequencing: the statement after a call runs on its result, unless the call raised.
\<close>

definition bind_err :: "error + 'a \<Rightarrow> ('a \<Rightarrow> error + 'b) \<Rightarrow> error + 'b" where
  "bind_err m f = (case m of Inl e \<Rightarrow> Inl e | Inr x \<Rightarrow> f x)"

text \<open>
  \<^verbatim>\<open>arr[idxs]\<close> with an integer index array raises IndexError when an index is out of
  range. The three parallel arrays of a pool are indexed one after the other by the same
  mask or index array; the first failure raises.
\<close>

definition int_index :: "'a list \<Rightarrow> nat list \<Rightarrow> error + 'a list" where
  "int_index xs idxs =
     (if list_all (\<lambda>i. i < length xs) idxs then Inr (map (nth xs) idxs) else Inl IndexError)"

definition bool_index3 ::
  "'a list \<Rightarrow> 'b list \<Rightarrow> 'c list \<Rightarrow> bool list \<Rightarrow> error + ('a list \<times> 'b list \<times> 'c list)" where
  "bool_index3 xs ys zs msk =
     bind_err (bool_index xs msk) (\<lambda>xs'.
     bind_err (bool_index ys msk) (\<lambda>ys'.
     bind_err (bool_index zs msk) (\<lambda>zs'. Inr (xs', ys', zs'))))"

definition int_index3 ::
  "'a list \<Rightarrow> 'b list \<Rightarrow> 'c list \<Rightarrow> nat list \<Rightarrow> error + ('a list \<times> 'b list \<times> 'c list)" where
  "int_index3 xs ys zs idxs =
     bind_err (int_index xs idxs) (\<lambda>xs'.
     bind_err (int_index ys idxs) (\<lambda>ys'.
     bind_err (int_index zs idxs) (\<lambda>zs'. Inr (xs', ys', zs'))))"

text \<open>\<^verbatim>\<open>np.in1d(ar1, ar2)\<close>: for each element of \<^verbatim>\<open>ar1\<close>, whether it occurs in \<^verbatim>\<open>ar2\<close>.\<close>

definition in1d :: "'a list \<Rightarrow> 'a list \<Rightarrow> bool list" where
  "in1d ar1 ar2 = map (\<lambda>x. x \<in> set ar2) ar1"

text \<open>
  \<^verbatim>\<open>np.unique(ar, return_index=True)\<close>: the sorted distinct values, and for each of them
  the index of its first occurrence in \<^verbatim>\<open>ar\<close>.
\<close>

fun first_index :: "'a list \<Rightarrow> 'a \<Rightarrow> nat" where
  "first_index [] v = 0"
| "first_index (x # xs) v = (if x = v then 0 else Suc (first_index xs v))"

definition np_unique :: "string list \<Rightarrow> string list \<times> nat list" where
  "np_unique ar = (let vals = sort (remdups ar) in (vals, map (first_index ar) vals))"

text \<open>
  \<^verbatim>\<open>np.random.choice(np.arange(population), num, p=weights, replace=False)\<close>: \<open>num\<close>
  distinct indices below \<open>population\<close>, an error when \<open>num\<close> exceeds \<open>population\<close> or when
  \<^verbatim>\<open>p\<close> has another size than the population. The random outcome is an input of the
  model: \<open>draw population\<close> is an ordering of the indices below \<open>population\<close>, of which the
  sample is the first \<open>num\<close>. The weights come from \<^verbatim>\<open>weighted_resampling\<close>, one per row
  of the objective matrix it is given; they fix the probability of each outcome only, so
  the model keeps their number.
\<close>

definition random_choice :: "(nat \<Rightarrow> nat list) \<Rightarrow> nat \<Rightarrow> nat \<Rightarrow> nat \<Rightarrow> error + nat list" where
  "random_choice draw population num num_weights =
     (if num_weights \<noteq> population then Inl ValueError
      else if num > population then Inl InsufficientPopulationError
      else Inr (take num (draw population)))"

definition is_ordering :: "nat \<Rightarrow> nat list \<Rightarrow> bool" where
  "is_ordering population idxs = (distinct idxs \<and> set idxs = {0..<population})"

text \<open>
  Modelled from the spec: \<^verbatim>\<open>safe_np_cat\<close> is a function of \<^verbatim>\<open>lambo.utils\<close>, which is not
  among the sources. Section 4.1 of the specification has the history merge append the
  selected entries to the history.
\<close>

definition safe_np_cat :: "'a list list \<Rightarrow> 'a list" where
  "safe_np_cat arrays = concat arrays"

section \<open>The optimizer\<close>

text \<open>
  The fields of \<^verbatim>\<open>SequentialGeneticOptimizer\<close> and of the task that \<^verbatim>\<open>optimize\<close> reads.
  \<open>batch_size\<close> is \<^verbatim>\<open>self.bb_task.batch_size\<close> and \<open>obj_dim\<close> is
  \<^verbatim>\<open>self.bb_task.obj_dim\<close>, the number of objectives and of columns of every objective
  matrix.
\<close>

record config =
  num_rounds :: nat
  batch_size :: nat
  obj_dim :: nat
  concentrate_pool :: int
  residue_sampler :: string
  encoder_is_language_model :: bool

text \<open>
  What one round receives from outside: the outcomes of the two random draws, and the
  final population of the inner optimization as \<^verbatim>\<open>_evaluate_result\<close> returns it
  (\<^verbatim>\<open>X_cand\<close>, \<^verbatim>\<open>F\<close>, \<^verbatim>\<open>X_seq\<close> and the evaluation count).
\<close>

record round_input =
  hist_draw :: "nat \<Rightarrow> nat list"
  pool_draw :: "nat \<Rightarrow> nat list"
  res_candidates :: "candidate list"
  res_targets :: "real list list"
  res_seqs :: "string list"
  res_bb_evals :: nat

text \<open>
  The record that \<^verbatim>\<open>_log_optimizer_metrics\<close> builds. The hypervolume, R2 and HSR values are
  computed by collaborators from \<^verbatim>\<open>normed_targets\<close>; the record keeps that argument in
  their place. The elapsed time is not modelled.
\<close>

record metrics_record =
  m_round_idx :: nat
  m_normed_targets :: "real list list"
  m_num_bb_evals :: nat

datatype log_record =
  CandidateRow nat candidate "real list"
| OptMetrics metrics_record

text \<open>The local variables and attributes that \<^verbatim>\<open>optimize\<close> carries through the loop.\<close>

record optimizer_state =
  pool_candidates :: "candidate list"
  pool_targets :: "real list list"
  pool_seqs :: "string list"
  all_seqs :: "string list"
  all_targets :: "real list list"
  active_candidates :: "candidate list"
  active_targets :: "real list list"
  active_seqs :: "string list"
  pareto_candidates :: "candidate list"
  pareto_targets :: "real list list"
  pareto_seqs :: "string list"
  pareto_cand_history :: "candidate list"
  pareto_seq_history :: "string list"
  pareto_target_history :: "real list list"
  norm_pareto_targets :: "real list list"
  total_bb_evals :: nat
  round_idx :: nat
  metrics :: metrics_record
  wandb_log :: "log_record list"

text \<open>\<^verbatim>\<open>_log_candidates\<close>, lines 317 to 324: one record per candidate and objective row.\<close>

definition log_candidates ::
  "candidate list \<Rightarrow> real list list \<Rightarrow> nat \<Rightarrow> log_record list \<Rightarrow> log_record list" where
  "log_candidates candidates targets r lg =
     lg @ map (\<lambda>(cand, obj). CandidateRow r cand obj) (zip candidates targets)"

text \<open>\<^verbatim>\<open>_log_optimizer_metrics\<close>, lines 326 to 343: builds the record and logs it.\<close>

definition make_metrics :: "real list list \<Rightarrow> nat \<Rightarrow> nat \<Rightarrow> metrics_record" where
  "make_metrics normed_targets r num_bb_evals =
     \<lparr>m_round_idx = r, m_normed_targets = normed_targets, m_num_bb_evals = num_bb_evals\<rparr>"

definition log_optimizer_metrics ::
  "real list list \<Rightarrow> nat \<Rightarrow> nat \<Rightarrow> log_record list \<Rightarrow> log_record list" where
  "log_optimizer_metrics normed_targets r num_bb_evals lg =
     lg @ [OptMetrics (make_metrics normed_targets r num_bb_evals)]"

subsection \<open>Initialization, lines 87 to 138\<close>

text \<open>
  The feasibility oracle \<^verbatim>\<open>bb_task.is_feasible\<close> is a parameter: a test of one candidate,
  applied to each element of the array. The debugger breakpoint, the printing and the
  construction of the encoder are not modelled.
\<close>

text \<open>
  Line 124, \<^verbatim>\<open>pareto_targets[:, i].min() for i in range(self.bb_task.obj_dim)\<close>: the
  smallest value of each objective over the rows of the matrix. NumPy raises ValueError
  for the minimum of an array without elements, so with at least one objective the
  statement fails on a matrix without rows, which is the frontier of an empty feasible
  pool. The column index is in range, the matrix having \<open>obj_dim\<close> columns. The values
  are printed only, and the model does not keep them.
\<close>

definition best_obj_vals :: "config \<Rightarrow> real list list \<Rightarrow> error + unit" where
  "best_obj_vals cfg targets =
     (if 0 < obj_dim cfg \<and> targets = [] then Inl ValueError else Inr ())"

definition check_residue_sampler :: "config \<Rightarrow> error + unit" where
  "check_residue_sampler cfg =
     (if residue_sampler cfg = ''uniform'' then Inr ()
      else if residue_sampler cfg = ''mlm'' then
        (if encoder_is_language_model cfg then Inr () else Inl AssertionError)
      else Inl ValueError)"

definition initial_state ::
  "candidate list \<Rightarrow> real list list \<Rightarrow> string list \<Rightarrow> real list list \<Rightarrow>
   candidate list \<Rightarrow> real list list \<Rightarrow> optimizer_state" where
  "initial_state pool_cands pool_tgts all_seqs0 all_targets0 pareto_cands pareto_tgts =
     \<lparr>pool_candidates = pool_cands,
      pool_targets = pool_tgts,
      pool_seqs = map mutant_residue_seq pool_cands,
      all_seqs = all_seqs0,
      all_targets = all_targets0,
      active_candidates = pool_cands,
      active_targets = pool_tgts,
      active_seqs = map mutant_residue_seq pool_cands,
      pareto_candidates = pareto_cands,
      pareto_targets = pareto_tgts,
      pareto_seqs = map mutant_residue_seq pareto_cands,
      pareto_cand_history = pareto_cands,
      pareto_seq_history = map mutant_residue_seq pareto_cands,
      pareto_target_history = pareto_tgts,
      norm_pareto_targets = pareto_tgts,
      total_bb_evals = 0,
      round_idx = 0,
      metrics = make_metrics pareto_tgts 0 0,
      wandb_log = log_optimizer_metrics pareto_tgts 0 0
                    (log_candidates pareto_cands pareto_tgts 0 [])\<rparr>"

definition initialize ::
  "config \<Rightarrow> (candidate \<Rightarrow> bool) \<Rightarrow> candidate list \<Rightarrow> real list list \<Rightarrow> string list \<Rightarrow>
   real list list \<Rightarrow> error + optimizer_state" where
  "initialize cfg is_feasible candidate_pool pool_targets0 all_seqs0 all_targets0 =
     bind_err (bool_index pool_targets0 (map is_feasible candidate_pool)) (\<lambda>pool_tgts.
     bind_err (pareto_frontier (mask_select candidate_pool (map is_feasible candidate_pool))
                 pool_tgts True) (\<lambda>(pareto_cands, pareto_tgts).
     bind_err (best_obj_vals cfg pareto_tgts) (\<lambda>_.
     bind_err (check_residue_sampler cfg) (\<lambda>_.
     Inr (initial_state (mask_select candidate_pool (map is_feasible candidate_pool))
            pool_tgts all_seqs0 all_targets0 pareto_cands pareto_tgts)))))"

subsection \<open>The active set of a round, lines 141 to 181\<close>

definition contract :: "config \<Rightarrow> nat \<Rightarrow> optimizer_state \<Rightarrow> error + optimizer_state" where
  "contract cfg r st =
     (if concentrate_pool cfg > 0 \<and> int r mod concentrate_pool cfg = 0 then
        bind_err (pareto_frontier (active_candidates st) (active_targets st) False)
          (\<lambda>(cands, tgts).
             Inr (st\<lparr>active_candidates := cands, active_targets := tgts,
                     active_seqs := map mutant_residue_seq cands\<rparr>))
      else Inr st)"

text \<open>
  Both augmentation steps end by appending the selected entries of three parallel arrays
  to the active set.
\<close>

definition extend_active ::
  "candidate list \<Rightarrow> real list list \<Rightarrow> string list \<Rightarrow> nat list \<Rightarrow> optimizer_state \<Rightarrow>
   error + optimizer_state" where
  "extend_active cands tgts seqs idxs st =
     bind_err (int_index3 cands tgts seqs idxs) (\<lambda>(new_cands, new_tgts, new_seqs).
       Inr (st\<lparr>active_candidates := active_candidates st @ new_cands,
               active_targets := active_targets st @ new_tgts,
               active_seqs := active_seqs st @ new_seqs\<rparr>))"

text \<open>
  The indices that a draw leaves after the sequences already active are removed
  (\<^verbatim>\<open>idxs[~is_active]\<close>).
\<close>

definition not_active :: "string list \<Rightarrow> nat list \<Rightarrow> string list \<Rightarrow> error + nat list" where
  "not_active seqs idxs active =
     bind_err (int_index seqs idxs) (\<lambda>drawn_seqs.
       Inr (mask_select idxs (map Not (in1d drawn_seqs active))))"

definition backtrack_augment ::
  "config \<Rightarrow> (nat \<Rightarrow> nat list) \<Rightarrow> optimizer_state \<Rightarrow> error + optimizer_state" where
  "backtrack_augment cfg draw st =
     (if length (active_candidates st) < batch_size cfg then
        (let num_samples = min (batch_size cfg) (length (pareto_cand_history st));
             num_backtrack = min num_samples (batch_size cfg - length (active_candidates st))
         in bind_err (random_choice draw (length (pareto_cand_history st)) num_samples
                        (length (pareto_target_history st))) (\<lambda>hist_idxs.
            bind_err (not_active (pareto_seq_history st) hist_idxs (active_seqs st))
              (\<lambda>hist_idxs1.
                 if length hist_idxs1 > 0 then
                   extend_active (pareto_cand_history st) (pareto_target_history st)
                     (pareto_seq_history st) (take num_backtrack hist_idxs1) st
                 else Inr st)))
      else Inr st)"

definition random_augment ::
  "config \<Rightarrow> (nat \<Rightarrow> nat list) \<Rightarrow> optimizer_state \<Rightarrow> error + optimizer_state" where
  "random_augment cfg draw st =
     (if length (active_candidates st) < batch_size cfg then
        (let num_samples = min (batch_size cfg) (length (pool_candidates st));
             num_rand = min num_samples (batch_size cfg - length (active_candidates st))
         in bind_err (random_choice draw (length (pool_candidates st)) num_samples
                        (length (pool_targets st))) (\<lambda>rand_idxs.
            bind_err (not_active (pool_seqs st) rand_idxs (active_seqs st)) (\<lambda>rand_idxs1.
              extend_active (pool_candidates st) (pool_targets st) (pool_seqs st)
                (take num_rand rand_idxs1) st)))
      else Inr st)"

text \<open>Backtrack augmentation, then random augmentation; with the contraction before.\<close>

definition augment :: "config \<Rightarrow> round_input \<Rightarrow> optimizer_state \<Rightarrow> error + optimizer_state" where
  "augment cfg inp st =
     bind_err (backtrack_augment cfg (hist_draw inp) st) (random_augment cfg (pool_draw inp))"

definition prepare_active ::
  "config \<Rightarrow> round_input \<Rightarrow> nat \<Rightarrow> optimizer_state \<Rightarrow> error + optimizer_state" where
  "prepare_active cfg inp r st = bind_err (contract cfg r st) (augment cfg inp)"

subsection \<open>Filtering and accepting the proposals, lines 222 to 296\<close>

text \<open>
  The three filters, on the proposals as (sequences, candidates, targets): the feasible
  ones, then the first of each sequence in the batch, then those whose sequence is absent
  from \<^verbatim>\<open>self.all_seqs\<close>.
\<close>

definition filter_feasible ::
  "(candidate \<Rightarrow> bool) \<Rightarrow> round_input \<Rightarrow>
   error + (string list \<times> candidate list \<times> real list list)" where
  "filter_feasible is_feasible inp =
     bool_index3 (res_seqs inp) (res_candidates inp) (res_targets inp)
       (map is_feasible (res_candidates inp))"

definition filter_duplicates ::
  "string list \<times> candidate list \<times> real list list \<Rightarrow>
   error + (string list \<times> candidate list \<times> real list list)" where
  "filter_duplicates new =
     (let (new_seqs, new_candidates, new_targets) = new;
          (uniq_seqs, unique_idxs) = np_unique new_seqs
      in bind_err (int_index new_candidates unique_idxs) (\<lambda>cands.
         bind_err (int_index new_targets unique_idxs) (\<lambda>tgts.
         Inr (uniq_seqs, cands, tgts))))"

definition filter_redundant ::
  "string list \<Rightarrow> string list \<times> candidate list \<times> real list list \<Rightarrow>
   error + (string list \<times> candidate list \<times> real list list)" where
  "filter_redundant seen new =
     (let (new_seqs, new_candidates, new_targets) = new
      in bool_index3 new_seqs new_candidates new_targets (map Not (in1d new_seqs seen)))"

text \<open>
  Lines 254 to 296: the proposals that survived the filters enter the pool, the observed
  set and the active set; the frontier is recomputed over the previous frontier and the
  proposals, and its entries whose sequence the history lacks are appended to the history.
  Lines 281 and 285 print the smallest value of each objective over the accepted targets
  and over the new frontier, as line 124 does; both matrices have a row there (lemma
  \<open>accepted_targets_not_empty\<close> below), so that neither statement raises.
\<close>

definition accept_candidates ::
  "nat \<Rightarrow> string list \<times> candidate list \<times> real list list \<Rightarrow> optimizer_state \<Rightarrow>
   error + optimizer_state" where
  "accept_candidates r new st =
     (let (new_seqs, new_candidates, new_targets) = new
      in bind_err (pareto_frontier (pareto_candidates st @ new_candidates)
                     (pareto_targets st @ new_targets) False) (\<lambda>(pareto_cands, pareto_tgts).
         bind_err (bool_index3 pareto_cands (map mutant_residue_seq pareto_cands) pareto_tgts
                     (map Not (in1d (map mutant_residue_seq pareto_cands)
                                 (pareto_seq_history st))))
           (\<lambda>(hist_cands, hist_seqs, hist_tgts).
         Inr (st\<lparr>pool_candidates := pool_candidates st @ new_candidates,
                 pool_targets := pool_targets st @ new_targets,
                 pool_seqs := pool_seqs st @ new_seqs,
                 all_seqs := all_seqs st @ new_seqs,
                 all_targets := all_targets st @ new_targets,
                 active_candidates := active_candidates st @ new_candidates,
                 active_targets := active_targets st @ new_targets,
                 active_seqs := active_seqs st @ new_seqs,
                 pareto_candidates := pareto_cands,
                 pareto_targets := pareto_tgts,
                 pareto_seqs := map mutant_residue_seq pareto_cands,
                 pareto_cand_history := safe_np_cat [pareto_cand_history st, hist_cands],
                 pareto_seq_history := safe_np_cat [pareto_seq_history st, hist_seqs],
                 pareto_target_history := safe_np_cat [pareto_target_history st, hist_tgts],
                 norm_pareto_targets := pareto_tgts,
                 metrics := make_metrics pareto_tgts r (total_bb_evals st),
                 wandb_log := log_optimizer_metrics pareto_tgts r (total_bb_evals st)
                                (log_candidates new_candidates new_targets r
                                   (wandb_log st))\<rparr>))))"

text \<open>
  Lines 222 to 296. The first \<^verbatim>\<open>continue\<close> (line 235) leaves the state as it is; the
  second (line 252) logs a metrics record, whose value it does not assign to
  \<^verbatim>\<open>metrics\<close>.
\<close>

definition no_candidates :: "string list \<times> candidate list \<times> real list list \<Rightarrow> bool" where
  "no_candidates new = (length (fst (snd new)) = 0)"

definition evaluate_round ::
  "(candidate \<Rightarrow> bool) \<Rightarrow> round_input \<Rightarrow> nat \<Rightarrow> optimizer_state \<Rightarrow> error + optimizer_state" where
  "evaluate_round is_feasible inp r st0 =
     (let st = st0\<lparr>total_bb_evals := total_bb_evals st0 + res_bb_evals inp\<rparr>
      in bind_err (filter_feasible is_feasible inp) (\<lambda>feas.
           if no_candidates feas then Inr st
           else
             bind_err (filter_duplicates feas) (\<lambda>uniq.
             bind_err (filter_redundant (all_seqs st) uniq) (\<lambda>new.
               if no_candidates new then
                 Inr (st\<lparr>wandb_log := log_optimizer_metrics (norm_pareto_targets st) r
                                         (total_bb_evals st) (wandb_log st)\<rparr>)
               else accept_candidates r new st))))"

subsection \<open>The loop and \<^verbatim>\<open>optimize\<close>, lines 140 and 298\<close>

definition round_body ::
  "config \<Rightarrow> (candidate \<Rightarrow> bool) \<Rightarrow> round_input \<Rightarrow> nat \<Rightarrow> optimizer_state \<Rightarrow>
   error + optimizer_state" where
  "round_body cfg is_feasible inp r st =
     bind_err (prepare_active cfg inp r (st\<lparr>round_idx := r\<rparr>)) (evaluate_round is_feasible inp r)"

text \<open>
  \<^verbatim>\<open>for round_idx in range(1, self.num_rounds + 1)\<close>: \<open>run_rounds\<close> runs \<open>k\<close> rounds from
  round \<open>r\<close> on; an exception ends the run.
\<close>

fun run_rounds ::
  "config \<Rightarrow> (candidate \<Rightarrow> bool) \<Rightarrow> (nat \<Rightarrow> round_input) \<Rightarrow> nat \<Rightarrow> nat \<Rightarrow> optimizer_state \<Rightarrow>
   error + optimizer_state" where
  "run_rounds cfg is_feasible inputs r 0 st = Inr st"
| "run_rounds cfg is_feasible inputs r (Suc k) st =
     bind_err (round_body cfg is_feasible (inputs r) r st)
       (run_rounds cfg is_feasible inputs (Suc r) k)"

definition optimize_state ::
  "config \<Rightarrow> (candidate \<Rightarrow> bool) \<Rightarrow> (nat \<Rightarrow> round_input) \<Rightarrow> candidate list \<Rightarrow> real list list \<Rightarrow>
   string list \<Rightarrow> real list list \<Rightarrow> error + optimizer_state" where
  "optimize_state cfg is_feasible inputs candidate_pool pool_targets0 all_seqs0 all_targets0 =
     bind_err (initialize cfg is_feasible candidate_pool pool_targets0 all_seqs0 all_targets0)
       (run_rounds cfg is_feasible inputs 1 (num_rounds cfg))"

definition optimize ::
  "config \<Rightarrow> (candidate \<Rightarrow> bool) \<Rightarrow> (nat \<Rightarrow> round_input) \<Rightarrow> candidate list \<Rightarrow> real list list \<Rightarrow>
   string list \<Rightarrow> real list list \<Rightarrow> error + metrics_record" where
  "optimize cfg is_feasible inputs candidate_pool pool_targets0 all_seqs0 all_targets0 =
     bind_err (optimize_state cfg is_feasible inputs candidate_pool pool_targets0 all_seqs0
                 all_targets0) (\<lambda>st. Inr (metrics st))"

section \<open>Predicates of the claims\<close>

text \<open>A result that is not the sampler's error for a draw larger than the population.\<close>

definition never_insufficient :: "error + 'a \<Rightarrow> bool" where
  "never_insufficient m = (m \<noteq> Inl InsufficientPopulationError)"

section \<open>Concrete inputs\<close>

text \<open>
  Candidates, configurations and round inputs for the concrete runs below: every candidate
  but the one of sequence \<open>X\<close> is feasible, the task has two objectives, the residue
  sampler is uniform, a draw orders the indices increasingly, and the inner optimization
  returns the given candidates with their own sequences.
\<close>

definition ex_cand :: "nat \<Rightarrow> string \<Rightarrow> candidate" where
  "ex_cand i s = \<lparr>uuid = i, wild_name = ''wt'', mutant_residue_seq = s\<rparr>"

definition ex_config :: "nat \<Rightarrow> nat \<Rightarrow> int \<Rightarrow> config" where
  "ex_config n b c = \<lparr>num_rounds = n, batch_size = b, obj_dim = 2, concentrate_pool = c,
     residue_sampler = ''uniform'', encoder_is_language_model = False\<rparr>"

definition ex_feasible :: "candidate \<Rightarrow> bool" where
  "ex_feasible c = (mutant_residue_seq c \<noteq> ''X'')"

definition ex_input :: "candidate list \<Rightarrow> real list list \<Rightarrow> round_input" where
  "ex_input cands tgts = \<lparr>hist_draw = (\<lambda>n. [0..<n]), pool_draw = (\<lambda>n. [0..<n]),
     res_candidates = cands, res_targets = tgts, res_seqs = map mutant_residue_seq cands,
     res_bb_evals = 4\<rparr>"

text \<open>
  A state for the augmentation scenario: a pool of \<open>n\<close> candidates with pairwise distinct
  sequences, of which the first two are active and the first ten are the history.
\<close>

definition ex_seq :: "nat \<Rightarrow> string" where
  "ex_seq i = replicate (Suc i) CHR ''A''"

definition ex_pool :: "nat \<Rightarrow> candidate list" where
  "ex_pool n = map (\<lambda>i. ex_cand i (ex_seq i)) [0..<n]"

definition ex_targets :: "nat \<Rightarrow> real list list" where
  "ex_targets n = map (\<lambda>i. [real i, - real i]) [0..<n]"

definition ex_scenario :: optimizer_state where
  "ex_scenario =
     \<lparr>pool_candidates = ex_pool 50,
      pool_targets = ex_targets 50,
      pool_seqs = map ex_seq [0..<50],
      all_seqs = map ex_seq [0..<50],
      all_targets = ex_targets 50,
      active_candidates = ex_pool 2,
      active_targets = ex_targets 2,
      active_seqs = map ex_seq [0..<2],
      pareto_candidates = ex_pool 10,
      pareto_targets = ex_targets 10,
      pareto_seqs = map ex_seq [0..<10],
      pareto_cand_history = ex_pool 10,
      pareto_seq_history = map ex_seq [0..<10],
      pareto_target_history = ex_targets 10,
      norm_pareto_targets = ex_targets 10,
      total_bb_evals = 0,
      round_idx = 0,
      metrics = make_metrics (ex_targets 10) 0 0,
      wandb_log = []\<rparr>"

text \<open>
  The proposals of a round that survive the filter pipeline: the feasible ones, or, when
  some are feasible, the first of each sequence among them whose sequence is not in
  \<open>seen\<close>.
\<close>

definition surviving ::
  "(candidate \<Rightarrow> bool) \<Rightarrow> round_input \<Rightarrow> string list \<Rightarrow>
   error + (string list \<times> candidate list \<times> real list list)" where
  "surviving is_feasible inp seen =
     bind_err (filter_feasible is_feasible inp) (\<lambda>feas.
       if no_candidates feas then Inr feas
       else bind_err (filter_duplicates feas) (filter_redundant seen))"




text \<open>The three augmentation steps change the active set only.\<close>

definition active_only :: "optimizer_state \<Rightarrow> optimizer_state \<Rightarrow> bool" where
  "active_only st st' =
     (pool_candidates st' = pool_candidates st \<and>
      pool_targets st' = pool_targets st \<and>
      pool_seqs st' = pool_seqs st \<and>
      all_seqs st' = all_seqs st \<and>
      all_targets st' = all_targets st \<and>
      pareto_candidates st' = pareto_candidates st \<and>
      pareto_targets st' = pareto_targets st \<and>
      pareto_seqs st' = pareto_seqs st \<and>
      pareto_cand_history st' = pareto_cand_history st \<and>
      pareto_seq_history st' = pareto_seq_history st \<and>
      pareto_target_history st' = pareto_target_history st \<and>
      norm_pareto_targets st' = norm_pareto_targets st \<and>
      total_bb_evals st' = total_bb_evals st \<and>
      round_idx st' = round_idx st \<and>
      metrics st' = metrics st \<and>
      wandb_log st' = wandb_log st)"

text \<open>
  A round that ends in one of the two \<^verbatim>\<open>continue\<close> statements: it has counted its
  evaluations and may have logged, and has changed nothing else.
\<close>

definition skipped_round :: "round_input \<Rightarrow> optimizer_state \<Rightarrow> optimizer_state \<Rightarrow> bool" where
  "skipped_round inp st st' =
     (pool_candidates st' = pool_candidates st \<and>
      pool_targets st' = pool_targets st \<and>
      pool_seqs st' = pool_seqs st \<and>
      all_seqs st' = all_seqs st \<and>
      all_targets st' = all_targets st \<and>
      active_candidates st' = active_candidates st \<and>
      active_targets st' = active_targets st \<and>
      active_seqs st' = active_seqs st \<and>
      pareto_candidates st' = pareto_candidates st \<and>
      pareto_targets st' = pareto_targets st \<and>
      pareto_seqs st' = pareto_seqs st \<and>
      pareto_cand_history st' = pareto_cand_history st \<and>
      pareto_seq_history st' = pareto_seq_history st \<and>
      pareto_target_history st' = pareto_target_history st \<and>
      norm_pareto_targets st' = norm_pareto_targets st \<and>
      round_idx st' = round_idx st \<and>
      metrics st' = metrics st \<and>
      total_bb_evals st' = total_bb_evals st + res_bb_evals inp)"

text \<open>
  The parallel arrays of the state have equal lengths, as far as the array operations of a
  round need it.
\<close>

definition aligned :: "optimizer_state \<Rightarrow> bool" where
  "aligned st =
     (length (pool_targets st) = length (pool_candidates st) \<and>
      length (pool_seqs st) = length (pool_candidates st) \<and>
      length (active_targets st) = length (active_candidates st) \<and>
      length (pareto_targets st) = length (pareto_candidates st) \<and>
      length (pareto_seq_history st) = length (pareto_cand_history st) \<and>
      length (pareto_target_history st) = length (pareto_cand_history st))"

text \<open>Proposals, as (sequences, candidates, targets), of equal lengths.\<close>

definition aligned3 :: "string list \<times> candidate list \<times> real list list \<Rightarrow> bool" where
  "aligned3 new =
     (length (fst (snd new)) = length (fst new) \<and> length (snd (snd new)) = length (fst new))"

text \<open>
  What a round receives is well formed: the three arrays of the inner optimization's
  result have equal lengths, and each draw orders the indices of its population.
\<close>

definition well_formed_input :: "round_input \<Rightarrow> bool" where
  "well_formed_input inp =
     (length (res_targets inp) = length (res_candidates inp) \<and>
      length (res_seqs inp) = length (res_candidates inp) \<and>
      (\<forall>n. is_ordering n (hist_draw inp n)) \<and>
      (\<forall>n. is_ordering n (pool_draw inp n)))"

section \<open>Properties of the frontier\<close>

lemma dominates_uminus:
  "dominates (map uminus w) (map uminus v) = spec_dominates False w v"
  by (simp add: dominates_def spec_dominates_def list_all2_map1 list_all2_map2
      zip_map_map list_ex_iff split_def)

lemma dominates_spec_True: "dominates w v = spec_dominates True w v"
  by (simp add: dominates_def spec_dominates_def)

lemma pareto_mask_spec:
  "pareto_mask maximize obj_vals = map (spec_non_dominated maximize obj_vals) obj_vals"
proof (cases maximize)
  case True
  then show ?thesis
    by (simp add: pareto_mask_def is_non_dominated_def spec_non_dominated_def
        dominates_spec_True)
next
  case False
  then show ?thesis
    by (simp add: pareto_mask_def is_non_dominated_def spec_non_dominated_def
        dominates_uminus list_ex_iff)
qed

lemma mask_select_map:
  "mask_select xs (map P ys) = map fst (filter (\<lambda>p. P (snd p)) (zip xs ys))"
proof (induction xs arbitrary: ys)
  case Nil
  then show ?case by (simp add: mask_select_def)
next
  case (Cons x xs)
  then show ?case by (cases ys) (auto simp: mask_select_def)
qed

lemma mask_select_all:
  "length xs = length ys \<Longrightarrow> list_all P ys \<Longrightarrow> mask_select xs (map P ys) = xs"
  by (induction xs ys rule: list_induct2) (auto simp: mask_select_def)

lemma mask_select_self: "mask_select ys (map P ys) = filter P ys"
  by (induction ys) (auto simp: mask_select_def)

lemma mask_select_length:
  "length xs = length ys \<Longrightarrow> length (mask_select xs (map P ys)) = length (filter P ys)"
  by (induction xs ys rule: list_induct2) (auto simp: mask_select_def)

lemma zip_mask_select:
  "length xs = length ys \<Longrightarrow>
   zip (mask_select xs (map P ys)) (mask_select ys (map P ys)) =
   filter (\<lambda>p. P (snd p)) (zip xs ys)"
  by (induction xs ys rule: list_induct2) (auto simp: mask_select_def)

lemma spec_non_dominated_mono:
  "spec_non_dominated m ys v \<Longrightarrow> set zs \<subseteq> set ys \<Longrightarrow> spec_non_dominated m zs v"
  by (auto simp: spec_non_dominated_def list_ex_iff)

lemma frontier_twice_aligned:
  assumes len: "length cands = length objs"
  shows "frontier_twice cands objs m = pareto_frontier cands objs m"
proof (cases "length cands = 1")
  case True
  then show ?thesis using len by (simp add: frontier_twice_def pareto_frontier_def)
next
  case False
  let ?P = "spec_non_dominated m objs"
  let ?fc = "mask_select cands (map ?P objs)"
  let ?fo = "mask_select objs (map ?P objs)"
  have first: "pareto_frontier cands objs m = Inr (?fc, ?fo)"
    using len False by (simp add: pareto_frontier_def pareto_mask_spec)
  have fo: "?fo = filter ?P objs" by (rule mask_select_self)
  have lenf: "length ?fc = length ?fo"
    using len by (simp add: mask_select_length fo)
  have all: "list_all (spec_non_dominated m ?fo) ?fo"
    unfolding fo by (auto simp: list_all_iff intro: spec_non_dominated_mono)
  have second: "pareto_frontier ?fc ?fo m = Inr (?fc, ?fo)"
  proof (cases "length ?fc = 1")
    case True
    then show ?thesis using lenf by (simp add: pareto_frontier_def)
  next
    case False
    have "mask_select ?fc (map (spec_non_dominated m ?fo) ?fo) = ?fc"
      using lenf all by (rule mask_select_all)
    moreover have "mask_select ?fo (map (spec_non_dominated m ?fo) ?fo) = ?fo"
      using all by (simp add: mask_select_all)
    ultimately show ?thesis
      using lenf False by (simp add: pareto_frontier_def pareto_mask_spec)
  qed
  show ?thesis using first second by (simp add: frontier_twice_def)
qed

text \<open>
  Claim C9. The frontier operation is idempotent: for every pool with objective vectors
  and either direction, applying \<open>pareto_frontier\<close> to its own output gives the result of
  applying it once, the same candidates and the same objective vectors; where the first
  call fails its assertion, so does the composition.
\<close>

theorem frontier_idempotent:
  "frontier_twice cands objs maximize = pareto_frontier cands objs maximize"
proof (cases "length cands = length objs")
  case True
  then show ?thesis by (rule frontier_twice_aligned)
next
  case False
  then show ?thesis by (simp add: frontier_twice_def pareto_frontier_def)
qed

theorem frontier_idempotent_witness:
  "frontier_twice [1::nat, 2, 3, 4] [[1, 5], [3, 3], [5, 1], [4, 4]] False =
     Inr ([1, 2, 3], [[1, 5], [3, 3], [5, 1]])"
  using frontier_idempotent [of "[1::nat, 2, 3, 4]" "[[1, 5], [3, 3], [5, 1], [4, 4]]" False]
  by (simp add: pareto_frontier_def pareto_mask_def is_non_dominated_def dominates_def
      mask_select_def)

text \<open>
  Claim C8. A pool of size 1 is returned unchanged with its objective vector. In every
  pool, an objective vector that no vector of the pool dominates keeps all its entries in
  the returned frontier: the entries that carry it are the same, candidates included,
  before and after, so identical vectors are all retained.
\<close>

theorem frontier_singleton_and_ties:
  "pareto_frontier [c] [v] maximize = Inr ([c], [v]) \<and>
   (length cands = length objs \<and> u \<in> set objs \<and> spec_non_dominated maximize objs u \<longrightarrow>
    (\<exists>fc fo. pareto_frontier cands objs maximize = Inr (fc, fo) \<and>
       filter (\<lambda>p. snd p = u) (zip fc fo) = filter (\<lambda>p. snd p = u) (zip cands objs)))"
proof (intro conjI impI)
  show "pareto_frontier [c] [v] maximize = Inr ([c], [v])"
    by (simp add: pareto_frontier_def)
next
  assume h: "length cands = length objs \<and> u \<in> set objs \<and> spec_non_dominated maximize objs u"
  show "\<exists>fc fo. pareto_frontier cands objs maximize = Inr (fc, fo) \<and>
       filter (\<lambda>p. snd p = u) (zip fc fo) = filter (\<lambda>p. snd p = u) (zip cands objs)"
  proof (cases "length cands = 1")
    case True
    then show ?thesis using h by (simp add: pareto_frontier_def)
  next
    case False
    let ?P = "spec_non_dominated maximize objs"
    have "filter (\<lambda>p. snd p = u) (filter (\<lambda>p. ?P (snd p)) (zip cands objs)) =
          filter (\<lambda>p. snd p = u) (zip cands objs)"
      using h by (auto intro: filter_cong)
    then show ?thesis
      using h False by (simp add: pareto_frontier_def pareto_mask_spec zip_mask_select)
  qed
qed

theorem frontier_singleton_and_ties_witness:
  "length [1::nat, 2, 3] = length [[1, 2], [1, 2], [0, 0::real]] \<and>
   [1, 2] \<in> set [[1, 2], [1, 2], [0, 0::real]] \<and>
   spec_non_dominated True [[1, 2], [1, 2], [0, 0]] [1, 2] \<and>
   pareto_frontier [1::nat, 2, 3] [[1, 2], [1, 2], [0, 0]] True = Inr ([1, 2], [[1, 2], [1, 2]]) \<and>
   pareto_frontier [7::nat] [[4, 4]] True = Inr ([7], [[4, 4]])"
  using frontier_singleton_and_ties [of "7::nat" "[4, 4]" True "[1::nat, 2, 3]"
      "[[1, 2], [1, 2], [0, 0]]" "[1, 2]"]
  by (simp add: spec_non_dominated_def spec_dominates_def pareto_frontier_def pareto_mask_def
      is_non_dominated_def dominates_def mask_select_def)

lemma bind_err_Inl [simp]: "bind_err (Inl e) f = Inl e"
  by (simp add: bind_err_def)

lemma bind_err_Inr [simp]: "bind_err (Inr x) f = f x"
  by (simp add: bind_err_def)

lemma bind_err_eq_Inr: "bind_err m f = Inr y \<longleftrightarrow> (\<exists>x. m = Inr x \<and> f x = Inr y)"
  by (cases m) auto

lemma bind_err_eq_Inl:
  "bind_err m f = Inl e \<longleftrightarrow> m = Inl e \<or> (\<exists>x. m = Inr x \<and> f x = Inl e)"
  by (cases m) auto

lemma ni_bind:
  "never_insufficient m \<Longrightarrow> (\<And>x. never_insufficient (f x)) \<Longrightarrow> never_insufficient (bind_err m f)"
  by (cases m) (auto simp: never_insufficient_def)

lemma ni_Inr [simp]: "never_insufficient (Inr x)"
  by (simp add: never_insufficient_def)

lemma ni_bool_index: "never_insufficient (bool_index xs msk)"
  by (simp add: bool_index_def never_insufficient_def)

lemma ni_int_index: "never_insufficient (int_index xs idxs)"
  by (simp add: int_index_def never_insufficient_def)

lemma ni_bool_index3: "never_insufficient (bool_index3 xs ys zs msk)"
  unfolding bool_index3_def by (intro ni_bind ni_bool_index ni_Inr)

lemma ni_int_index3: "never_insufficient (int_index3 xs ys zs idxs)"
  unfolding int_index3_def by (intro ni_bind ni_int_index ni_Inr)

lemma ni_pareto_frontier: "never_insufficient (pareto_frontier cands objs m)"
  by (simp add: pareto_frontier_def never_insufficient_def)

lemma ni_random_choice:
  "never_insufficient (random_choice draw population (min b population) w)"
  by (simp add: random_choice_def never_insufficient_def)

lemma ni_extend_active: "never_insufficient (extend_active cands tgts seqs idxs st)"
  unfolding extend_active_def by (intro ni_bind ni_int_index3) (simp add: split_def)

lemma ni_not_active: "never_insufficient (not_active seqs idxs active)"
  unfolding not_active_def by (intro ni_bind ni_int_index ni_Inr)

lemma ni_backtrack: "never_insufficient (backtrack_augment cfg draw st)"
  unfolding backtrack_augment_def Let_def
  by (auto intro!: ni_bind ni_random_choice ni_not_active ni_extend_active)

lemma ni_random: "never_insufficient (random_augment cfg draw st)"
  unfolding random_augment_def Let_def
  by (auto intro!: ni_bind ni_random_choice ni_not_active ni_extend_active)

lemma ni_contract: "never_insufficient (contract cfg r st)"
  unfolding contract_def
  by (auto intro!: ni_bind ni_pareto_frontier simp: split_def)

lemma ni_prepare: "never_insufficient (prepare_active cfg inp r st)"
  unfolding prepare_active_def augment_def
  by (intro ni_bind ni_contract ni_backtrack ni_random)

lemma ni_accept: "never_insufficient (accept_candidates r new st)"
  unfolding accept_candidates_def Let_def split_def
  by (intro ni_bind ni_pareto_frontier ni_bool_index3 ni_Inr)

lemma ni_evaluate: "never_insufficient (evaluate_round feas inp r st)"
  unfolding evaluate_round_def Let_def filter_feasible_def filter_duplicates_def
    filter_redundant_def split_def
  by (auto intro!: ni_bind ni_bool_index3 ni_int_index ni_accept)

lemma ni_round_body: "never_insufficient (round_body cfg feas inp r st)"
  unfolding round_body_def by (intro ni_bind ni_prepare ni_evaluate)

lemma ni_run_rounds: "never_insufficient (run_rounds cfg feas inputs r k st)"
  by (induction k arbitrary: r st) (auto intro!: ni_bind ni_round_body)

lemma ni_check_residue_sampler: "never_insufficient (check_residue_sampler cfg)"
  by (simp add: check_residue_sampler_def never_insufficient_def)

lemma ni_best_obj_vals: "never_insufficient (best_obj_vals cfg targets)"
  by (simp add: best_obj_vals_def never_insufficient_def)

lemma ni_initialize: "never_insufficient (initialize cfg feas pool tgts seqs atgts)"
  unfolding initialize_def split_def
  by (intro ni_bind ni_bool_index ni_pareto_frontier ni_best_obj_vals
      ni_check_residue_sampler ni_Inr)

text \<open>
  Claim C10. In both augmentation steps the number of indices requested from the sampler
  is the minimum of the batch size and the population size, so it never exceeds the
  population: neither step, nor any sequence of rounds from any state, nor \<open>optimize\<close>
  as a whole ends in the sampler's error for a sample larger than the population.
\<close>

theorem sampler_never_insufficient:
  "random_choice draw population (min b population) num_weights
     \<noteq> Inl InsufficientPopulationError \<and>
   backtrack_augment cfg draw st \<noteq> Inl InsufficientPopulationError \<and>
   random_augment cfg draw st \<noteq> Inl InsufficientPopulationError \<and>
   run_rounds cfg is_feasible inputs r k st \<noteq> Inl InsufficientPopulationError \<and>
   optimize cfg is_feasible inputs candidate_pool pool_targets0 all_seqs0 all_targets0
     \<noteq> Inl InsufficientPopulationError"
proof -
  have "never_insufficient
     (optimize cfg is_feasible inputs candidate_pool pool_targets0 all_seqs0 all_targets0)"
    unfolding optimize_def optimize_state_def
    by (intro ni_bind ni_initialize ni_run_rounds ni_Inr)
  then show ?thesis
    using ni_backtrack [of cfg draw st] ni_random [of cfg draw st]
      ni_random_choice [of draw population b num_weights]
      ni_run_rounds [of cfg is_feasible inputs r k st]
    by (simp add: never_insufficient_def)
qed

theorem sampler_never_insufficient_witness:
  "random_choice (\<lambda>n. [0..<n]) 3 (min 5 3) 3 \<noteq> Inl InsufficientPopulationError \<and>
   optimize (ex_config 1 2 0) ex_feasible (\<lambda>r. ex_input [ex_cand 3 ''C''] [[3, 3]])
     [ex_cand 1 ''A'', ex_cand 2 ''B''] [[1, 1], [2, 2]] [''A'', ''B''] [[1, 1], [2, 2]]
     \<noteq> Inl InsufficientPopulationError"
  using sampler_never_insufficient [where draw = "\<lambda>n. [0..<n]" and population = 3 and b = 5
      and num_weights = 3 and cfg = "ex_config 1 2 0" and is_feasible = ex_feasible
      and inputs = "\<lambda>r. ex_input [ex_cand 3 ''C''] [[3, 3]]"
      and candidate_pool = "[ex_cand 1 ''A'', ex_cand 2 ''B'']"
      and ?pool_targets0.0 = "[[1, 1], [2, 2]]" and ?all_seqs0.0 = "[''A'', ''B'']"
      and ?all_targets0.0 = "[[1, 1], [2, 2]]"]
  by blast

section \<open>Concrete runs\<close>

lemmas model_defs =
  optimize_def optimize_state_def initialize_def initial_state_def check_residue_sampler_def
  best_obj_vals_def round_body_def prepare_active_def augment_def contract_def backtrack_augment_def
  random_augment_def extend_active_def not_active_def random_choice_def
  evaluate_round_def filter_feasible_def filter_duplicates_def filter_redundant_def
  accept_candidates_def no_candidates_def np_unique_def in1d_def safe_np_cat_def
  bool_index3_def int_index3_def bool_index_def int_index_def mask_select_def
  pareto_frontier_def pareto_mask_def is_non_dominated_def dominates_def
  log_candidates_def log_optimizer_metrics_def make_metrics_def
  ex_cand_def ex_config_def ex_feasible_def ex_input_def

text \<open>
  Claim C2, at a failing input. One round over a pool of one candidate; the inner
  optimization proposes one candidate, which is infeasible, so the feasibility filter
  empties the proposal set. The run returns without an error and has executed the round
  (the round index is 1 and the evaluations are counted), but the log holds the two
  records of round 0 only: no metrics snapshot is logged for round 1.
\<close>

theorem infeasible_round_logs_nothing:
  "bind_err (optimize_state (ex_config 1 1 1) ex_feasible
       (\<lambda>r. ex_input [ex_cand 2 ''X''] [[0, 0]])
       [ex_cand 1 ''A''] [[1, 1]] [''A''] [[1, 1]])
     (\<lambda>st. Inr (wandb_log st, round_idx st, total_bb_evals st))
   = Inr ([CandidateRow 0 (ex_cand 1 ''A'') [1, 1], OptMetrics (make_metrics [[1, 1]] 0 0)],
          1, 4)"
  by (simp add: model_defs)

text \<open>
  Claim C1, at a failing input. The pool holds the objective vectors (1,1) and (2,2); round
  1 accepts one proposal of vector (3,3). The initial frontier, computed under maximize,
  is (2,2); the recomputation of round 1 over (2,2) and (3,3), under minimize, keeps
  (2,2), which is also the frontier that the metrics record reports. Of the three vectors
  observed, the non-dominated one is (1,1) under minimize and (3,3) under maximize.
\<close>

theorem frontier_after_round_not_global:
  "bind_err (optimize_state (ex_config 1 2 0) ex_feasible
       (\<lambda>r. ex_input [ex_cand 3 ''C''] [[3, 3]])
       [ex_cand 1 ''A'', ex_cand 2 ''B''] [[1, 1], [2, 2]] [''A'', ''B''] [[1, 1], [2, 2]])
     (\<lambda>st. Inr (pareto_targets st, pool_targets st, m_normed_targets (metrics st)))
   = Inr ([[2, 2]], [[1, 1], [2, 2], [3, 3]], [[2, 2]]) \<and>
   filter (spec_non_dominated False [[1, 1], [2, 2], [3, 3]]) [[1, 1], [2, 2], [3, 3]]
     = [[1, 1]] \<and>
   filter (spec_non_dominated True [[1, 1], [2, 2], [3, 3]]) [[1, 1], [2, 2], [3, 3]]
     = [[3, 3]]"
  by (simp add: model_defs spec_non_dominated_def spec_dominates_def)

section \<open>The active set\<close>

lemma int_index_Inr:
  "int_index xs idxs = Inr ys \<longleftrightarrow> list_all (\<lambda>i. i < length xs) idxs \<and> ys = map (nth xs) idxs"
  by (auto simp: int_index_def)

lemma int_index3_Inr:
  "int_index3 xs ys zs idxs = Inr r \<longleftrightarrow>
     list_all (\<lambda>i. i < length xs) idxs \<and> list_all (\<lambda>i. i < length ys) idxs \<and>
     list_all (\<lambda>i. i < length zs) idxs \<and>
     r = (map (nth xs) idxs, map (nth ys) idxs, map (nth zs) idxs)"
  by (auto simp: int_index3_def bind_err_eq_Inr int_index_Inr)

lemma extend_active_Inr:
  "extend_active cands tgts seqs idxs st = Inr st' \<longleftrightarrow>
     list_all (\<lambda>i. i < length cands) idxs \<and> list_all (\<lambda>i. i < length tgts) idxs \<and>
     list_all (\<lambda>i. i < length seqs) idxs \<and>
     st' = st\<lparr>active_candidates := active_candidates st @ map (nth cands) idxs,
              active_targets := active_targets st @ map (nth tgts) idxs,
              active_seqs := active_seqs st @ map (nth seqs) idxs\<rparr>"
  by (auto simp: extend_active_def bind_err_eq_Inr int_index3_Inr)

lemma not_active_Inr:
  "not_active seqs idxs active = Inr r \<longleftrightarrow>
     list_all (\<lambda>i. i < length seqs) idxs \<and> r = filter (\<lambda>i. seqs ! i \<notin> set active) idxs"
proof -
  have "mask_select idxs (map Not (in1d (map (nth seqs) idxs) active)) =
        filter (\<lambda>i. seqs ! i \<notin> set active) idxs"
    using mask_select_self [where P = "\<lambda>i. seqs ! i \<notin> set active" and ys = idxs]
    by (simp add: in1d_def comp_def)
  then show ?thesis
    by (auto simp: not_active_def bind_err_eq_Inr int_index_Inr)
qed

lemma random_choice_Inr:
  "random_choice draw population num w = Inr idxs \<longleftrightarrow>
     w = population \<and> num \<le> population \<and> idxs = take num (draw population)"
  by (auto simp: random_choice_def)

lemma pareto_frontier_length:
  assumes "pareto_frontier cands objs m = Inr (fc, fo)"
  shows "length fc \<le> length cands \<and> length fo = length fc \<and> length cands = length objs"
proof -
  have len: "length cands = length objs"
    using assms by (auto simp: pareto_frontier_def split: if_splits)
  show ?thesis
  proof (cases "length cands = 1")
    case True
    then show ?thesis using assms len by (auto simp: pareto_frontier_def)
  next
    case False
    then have "fc = mask_select cands (map (spec_non_dominated m objs) objs)"
      and "fo = mask_select objs (map (spec_non_dominated m objs) objs)"
      using assms len by (auto simp: pareto_frontier_def pareto_mask_spec)
    then show ?thesis using len by (simp add: mask_select_length)
  qed
qed

lemma contract_length:
  "contract cfg r st = Inr st' \<Longrightarrow>
   length (active_candidates st') \<le> length (active_candidates st)"
  by (auto simp: contract_def bind_err_eq_Inr split: if_splits dest: pareto_frontier_length)

lemma backtrack_length:
  assumes "backtrack_augment cfg draw st = Inr st'"
  shows "length (active_candidates st') \<le> max (batch_size cfg) (length (active_candidates st))"
proof (cases "length (active_candidates st) < batch_size cfg")
  case False
  then show ?thesis using assms by (simp add: backtrack_augment_def)
next
  case True
  then show ?thesis
    using assms
    by (auto simp: backtrack_augment_def Let_def bind_err_eq_Inr extend_active_Inr
        split: if_splits)
qed

lemma random_length:
  assumes "random_augment cfg draw st = Inr st'"
  shows "length (active_candidates st') \<le> max (batch_size cfg) (length (active_candidates st))"
proof (cases "length (active_candidates st) < batch_size cfg")
  case False
  then show ?thesis using assms by (simp add: random_augment_def)
next
  case True
  then show ?thesis
    using assms
    by (auto simp: random_augment_def Let_def bind_err_eq_Inr extend_active_Inr
        split: if_splits)
qed

text \<open>
  Claim C3, as amended. After contraction, backtrack augmentation and random augmentation
  the active set has at most the larger of \<open>batch_size\<close> and its size at the start of the
  round: contraction never enlarges it, and each augmentation step adds entries only while
  it is below \<open>batch_size\<close> and never takes it beyond.
\<close>

theorem active_set_bound:
  assumes "prepare_active cfg inp r st = Inr st'"
  shows "length (active_candidates st') \<le> max (batch_size cfg) (length (active_candidates st))"
proof -
  from assms obtain st1 st2 where
    c: "contract cfg r st = Inr st1" and
    b: "backtrack_augment cfg (hist_draw inp) st1 = Inr st2" and
    a: "random_augment cfg (pool_draw inp) st2 = Inr st'"
    by (auto simp: prepare_active_def augment_def bind_err_eq_Inr)
  show ?thesis
    using contract_length [OF c] backtrack_length [OF b] random_length [OF a] by linarith
qed

theorem active_set_bound_witness:
  "\<exists>st'. prepare_active (ex_config 1 3 1) (ex_input [] []) 1
       (initial_state [ex_cand 1 ''A'', ex_cand 2 ''B'', ex_cand 3 ''C'']
          [[1, 5], [5, 1], [6, 6]] [''A'', ''B'', ''C''] [[1, 5], [5, 1], [6, 6]]
          [ex_cand 3 ''C''] [[6, 6]]) = Inr st' \<and>
     length (active_candidates st') = 3 \<and>
     length (active_candidates st') \<le> max (batch_size (ex_config 1 3 1)) 3"
  using active_set_bound [of "ex_config 1 3 1" "ex_input [] []" 1
      "initial_state [ex_cand 1 ''A'', ex_cand 2 ''B'', ex_cand 3 ''C'']
          [[1, 5], [5, 1], [6, 6]] [''A'', ''B'', ''C''] [[1, 5], [5, 1], [6, 6]]
          [ex_cand 3 ''C''] [[6, 6]]"]
  by (simp add: model_defs)

text \<open>
  Claim C3 as stated fails. With \<open>batch_size = 1\<close> and a pool of two candidates that do not
  dominate one another, the active set of round 1 has two elements after the state
  machine, more than \<open>batch_size\<close>, although pool and history together hold two distinct
  sequences, enough to supply \<open>batch_size\<close> points.
\<close>

theorem active_set_exceeds_batch_size:
  "bind_err (initialize (ex_config 1 1 1) ex_feasible [ex_cand 1 ''A'', ex_cand 2 ''B'']
       [[1, 5], [5, 1]] [''A'', ''B''] [[1, 5], [5, 1]])
     (\<lambda>st. bind_err (prepare_active (ex_config 1 1 1) (ex_input [] []) 1 st)
       (\<lambda>st'. Inr (length (active_candidates st'), batch_size (ex_config 1 1 1),
                    length (remdups (pool_seqs st' @ pareto_seq_history st')))))
   = Inr (2, 1, 2)"
  by (simp add: model_defs)

lemma count_active_le:
  assumes d: "distinct idxs" and r: "list_all (\<lambda>i. i < length hs) idxs" and h: "distinct hs"
    and f: "finite A"
  shows "length (filter (\<lambda>i. hs ! i \<in> A) idxs) \<le> card A"
proof -
  let ?S = "{i \<in> set idxs. hs ! i \<in> A}"
  have "length (filter (\<lambda>i. hs ! i \<in> A) idxs) = card ?S"
    using d by (simp add: distinct_length_filter Int_def conj_commute)
  also have "\<dots> = card ((\<lambda>i. hs ! i) ` ?S)"
  proof (rule card_image [symmetric])
    show "inj_on (\<lambda>i. hs ! i) ?S"
      using r h by (auto simp: inj_on_def list_all_iff nth_eq_iff_index_eq)
  qed
  also have "\<dots> \<le> card A"
    using f by (intro card_mono) auto
  finally show ?thesis .
qed

lemma is_ordering_length: "is_ordering n xs \<Longrightarrow> length xs = n"
  using distinct_card [of xs] by (simp add: is_ordering_def)

lemma filter_complement_length:
  "length (filter (\<lambda>x. \<not> P x) xs) = length xs - length (filter P xs)"
  using sum_length_filter_compl [of P xs] by arith

text \<open>
  Claim C4. With \<open>batch_size = 5\<close>, an active set of 2 entries, a history of 10 entries with
  pairwise distinct sequences and a pool of 50, whatever the draw, augmentation returns an
  active set of exactly 5 entries: the 2 it had, followed by 3 distinct history entries
  whose sequences were not active. All three come from the history, which is asked first,
  and none from the pool.
\<close>

theorem augmentation_scenario:
  assumes Hbs: "batch_size cfg = 5"
    and Hac: "length (active_candidates st) = 2"
    and Hat: "length (active_targets st) = 2"
    and Has: "length (active_seqs st) = 2"
    and Hhc: "length (pareto_cand_history st) = 10"
    and Hhs: "length (pareto_seq_history st) = 10"
    and Hht: "length (pareto_target_history st) = 10"
    and Hhd: "distinct (pareto_seq_history st)"
    and Hpl: "length (pool_candidates st) = 50"
    and Hdr: "is_ordering 10 (hist_draw inp 10)"
  shows "\<exists>idxs st'. augment cfg inp st = Inr st' \<and>
      length idxs = 3 \<and> distinct idxs \<and>
      list_all (\<lambda>i. i < 10 \<and> pareto_seq_history st ! i \<notin> set (active_seqs st)) idxs \<and>
      st' = st\<lparr>active_candidates :=
                 active_candidates st @ map (nth (pareto_cand_history st)) idxs,
               active_targets :=
                 active_targets st @ map (nth (pareto_target_history st)) idxs,
               active_seqs := active_seqs st @ map (nth (pareto_seq_history st)) idxs\<rparr> \<and>
      length (active_candidates st') = 5 \<and> length (active_targets st') = 5 \<and>
      length (active_seqs st') = 5"
proof -
  let ?D = "take 5 (hist_draw inp 10)"
  let ?F = "filter (\<lambda>i. pareto_seq_history st ! i \<notin> set (active_seqs st)) ?D"
  let ?I = "take 3 ?F"
  let ?st = "st\<lparr>active_candidates :=
                 active_candidates st @ map (nth (pareto_cand_history st)) ?I,
               active_targets :=
                 active_targets st @ map (nth (pareto_target_history st)) ?I,
               active_seqs := active_seqs st @ map (nth (pareto_seq_history st)) ?I\<rparr>"
  have len10: "length (hist_draw inp 10) = 10" using Hdr by (rule is_ordering_length)
  have dD: "distinct ?D" using Hdr by (simp add: is_ordering_def)
  have "set ?D \<subseteq> set (hist_draw inp 10)" by (rule set_take_subset)
  then have rD: "list_all (\<lambda>i. i < 10) ?D"
    using Hdr by (auto simp: is_ordering_def list_all_iff)
  have lD: "length ?D = 5" using len10 by simp
  have "card (set (active_seqs st)) \<le> 2"
    using card_length [of "active_seqs st"] Has by simp
  moreover have "length (filter (\<lambda>i. pareto_seq_history st ! i \<in> set (active_seqs st)) ?D)
      \<le> card (set (active_seqs st))"
    using dD rD Hhd by (intro count_active_le) (simp_all add: Hhs)
  ultimately have lF: "3 \<le> length ?F"
    using lD filter_complement_length
      [of "\<lambda>i. pareto_seq_history st ! i \<in> set (active_seqs st)" ?D]
    by simp
  then have lI: "length ?I = 3" by simp
  have rI: "list_all (\<lambda>i. i < 10) ?I"
    using rD by (auto simp: list_all_iff dest: in_set_takeD)
  have nI: "list_all (\<lambda>i. pareto_seq_history st ! i \<notin> set (active_seqs st)) ?I"
    by (auto simp: list_all_iff dest: in_set_takeD)
  have dI: "distinct ?I" using dD by simp
  have choice: "random_choice (hist_draw inp) 10 5 10 = Inr ?D"
    by (simp add: random_choice_def)
  have na: "not_active (pareto_seq_history st) ?D (active_seqs st) = Inr ?F"
    using rD by (simp add: not_active_Inr Hhs)
  have ext: "extend_active (pareto_cand_history st) (pareto_target_history st)
      (pareto_seq_history st) ?I st = Inr ?st"
    using rI by (simp add: extend_active_Inr Hhc Hhs Hht)
  have bk: "backtrack_augment cfg (hist_draw inp) st = Inr ?st"
    using lF by (simp add: backtrack_augment_def Hbs Hac Hhc Hht choice na ext)
  have rand: "random_augment cfg (pool_draw inp) ?st = Inr ?st"
    using lI by (simp add: random_augment_def Hbs Hac)
  have aug: "augment cfg inp st = Inr ?st"
    by (simp add: augment_def bk rand)
  have "list_all (\<lambda>i. i < 10 \<and> pareto_seq_history st ! i \<notin> set (active_seqs st)) ?I"
    unfolding list_all_iff
  proof
    fix i assume "i \<in> set ?I"
    then have "i \<in> set ?F" by (rule in_set_takeD)
    then show "i < 10 \<and> pareto_seq_history st ! i \<notin> set (active_seqs st)"
      using rD by (simp add: list_all_iff)
  qed
  then show ?thesis
    using aug lI dI Hac Hat Has by (intro exI [of _ ?I] exI [of _ ?st]) simp
qed


lemma ex_seq_inj: "inj ex_seq"
proof (rule injI)
  fix i j assume "ex_seq i = ex_seq j"
  then have "length (ex_seq i) = length (ex_seq j)" by simp
  then show "i = j" by (simp add: ex_seq_def)
qed

lemma ex_seq_distinct: "distinct (map ex_seq [0..<n])"
  using ex_seq_inj by (simp add: distinct_map inj_on_def inj_def)

theorem augmentation_scenario_witness:
  "batch_size (ex_config 1 5 1) = 5 \<and>
   length (active_candidates ex_scenario) = 2 \<and>
   length (pareto_cand_history ex_scenario) = 10 \<and>
   distinct (pareto_seq_history ex_scenario) \<and>
   length (pool_candidates ex_scenario) = 50 \<and>
   is_ordering 10 (hist_draw (ex_input [] []) 10) \<and>
   (\<exists>st'. augment (ex_config 1 5 1) (ex_input [] []) ex_scenario = Inr st' \<and>
          length (active_candidates st') = 5)"
proof -
  have h1: "batch_size (ex_config 1 5 1) = 5" by (simp add: ex_config_def)
  have h2: "length (active_candidates ex_scenario) = 2"
    by (simp add: ex_scenario_def ex_pool_def)
  have h3: "length (active_targets ex_scenario) = 2"
    by (simp add: ex_scenario_def ex_targets_def)
  have h4: "length (active_seqs ex_scenario) = 2" by (simp add: ex_scenario_def)
  have h5: "length (pareto_cand_history ex_scenario) = 10"
    by (simp add: ex_scenario_def ex_pool_def)
  have h6: "length (pareto_seq_history ex_scenario) = 10" by (simp add: ex_scenario_def)
  have h7: "length (pareto_target_history ex_scenario) = 10"
    by (simp add: ex_scenario_def ex_targets_def)
  have h8: "distinct (pareto_seq_history ex_scenario)"
    by (simp add: ex_scenario_def ex_seq_distinct)
  have h9: "length (pool_candidates ex_scenario) = 50"
    by (simp add: ex_scenario_def ex_pool_def)
  have h10: "is_ordering 10 (hist_draw (ex_input [] []) 10)"
    by (simp add: is_ordering_def ex_input_def)
  from augmentation_scenario [OF h1 h2 h3 h4 h5 h6 h7 h8 h9 h10]
  obtain st' where "augment (ex_config 1 5 1) (ex_input [] []) ex_scenario = Inr st'"
    and "length (active_candidates st') = 5"
    by blast
  then show ?thesis using h1 h2 h5 h8 h9 h10 by blast
qed

section \<open>The history\<close>




lemma mask_select_key:
  "mask_select xs (map P (map f xs)) = filter (\<lambda>x. P (f x)) xs"
  using mask_select_self [where P = "\<lambda>x. P (f x)" and ys = xs] by (simp add: comp_def)

lemma bool_index3_Inr:
  "bool_index3 xs ys zs m = Inr r \<longleftrightarrow>
     length m = length xs \<and> length m = length ys \<and> length m = length zs \<and>
     r = (mask_select xs m, mask_select ys m, mask_select zs m)"
  by (auto simp: bool_index3_def bool_index_def bind_err_eq_Inr)

lemma first_index_correct:
  "v \<in> set xs \<Longrightarrow> first_index xs v < length xs \<and> xs ! first_index xs v = v"
  by (induction xs) auto






lemma not_in1d: "map Not (in1d xs ys) = map (\<lambda>x. x \<notin> set ys) xs"
  by (simp add: in1d_def)

lemma active_only_refl: "active_only st st"
  by (simp add: active_only_def)

lemma active_only_trans: "active_only st st1 \<Longrightarrow> active_only st1 st2 \<Longrightarrow> active_only st st2"
  by (simp add: active_only_def)

lemma contract_frame: "contract cfg r st = Inr st' \<Longrightarrow> active_only st st'"
  by (auto simp: contract_def bind_err_eq_Inr active_only_def split: if_splits)

lemma extend_active_frame: "extend_active cs ts ss idxs st = Inr st' \<Longrightarrow> active_only st st'"
  by (auto simp: extend_active_Inr active_only_def)

lemma backtrack_frame: "backtrack_augment cfg draw st = Inr st' \<Longrightarrow> active_only st st'"
  by (auto simp: backtrack_augment_def Let_def bind_err_eq_Inr active_only_refl
      split: if_splits dest: extend_active_frame)

lemma random_frame: "random_augment cfg draw st = Inr st' \<Longrightarrow> active_only st st'"
  by (auto simp: random_augment_def Let_def bind_err_eq_Inr active_only_refl
      split: if_splits dest: extend_active_frame)

lemma prepare_active_frame:
  assumes "prepare_active cfg inp r st = Inr st'"
  shows "active_only st st'"
proof -
  from assms obtain st1 st2 where
    c: "contract cfg r st = Inr st1" and
    b: "backtrack_augment cfg (hist_draw inp) st1 = Inr st2" and
    a: "random_augment cfg (pool_draw inp) st2 = Inr st'"
    by (auto simp: prepare_active_def augment_def bind_err_eq_Inr)
  show ?thesis
    using contract_frame [OF c] backtrack_frame [OF b] random_frame [OF a]
    by (blast intro: active_only_trans)
qed


lemma accept_candidates_Inr:
  assumes "accept_candidates r new st = Inr st'"
  shows "\<exists>pc pt.
     pareto_frontier (pareto_candidates st @ fst (snd new))
       (pareto_targets st @ snd (snd new)) False = Inr (pc, pt) \<and>
     pareto_candidates st' = pc \<and> pareto_targets st' = pt \<and>
     pareto_seqs st' = map mutant_residue_seq pc \<and>
     pareto_cand_history st' = pareto_cand_history st @
       filter (\<lambda>c. mutant_residue_seq c \<notin> set (pareto_seq_history st)) pc \<and>
     pareto_seq_history st' = pareto_seq_history st @
       filter (\<lambda>s. s \<notin> set (pareto_seq_history st)) (map mutant_residue_seq pc) \<and>
     pareto_target_history st' = pareto_target_history st @
       map fst (filter (\<lambda>p. mutant_residue_seq (snd p) \<notin> set (pareto_seq_history st))
                  (zip pt pc)) \<and>
     all_seqs st' = all_seqs st @ fst new \<and>
     metrics st' = make_metrics pt r (total_bb_evals st) \<and>
     total_bb_evals st' = total_bb_evals st \<and> round_idx st' = round_idx st"
proof -
  obtain ns nc nt where new: "new = (ns, nc, nt)" by (cases new) auto
  let ?h = "pareto_seq_history st"
  from assms obtain pc pt hc hs ht where
    f: "pareto_frontier (pareto_candidates st @ nc) (pareto_targets st @ nt) False
          = Inr (pc, pt)" and
    b: "bool_index3 pc (map mutant_residue_seq pc) pt
          (map Not (in1d (map mutant_residue_seq pc) ?h)) = Inr (hc, hs, ht)" and
    st': "st' = st\<lparr>pool_candidates := pool_candidates st @ nc,
                 pool_targets := pool_targets st @ nt,
                 pool_seqs := pool_seqs st @ ns,
                 all_seqs := all_seqs st @ ns,
                 all_targets := all_targets st @ nt,
                 active_candidates := active_candidates st @ nc,
                 active_targets := active_targets st @ nt,
                 active_seqs := active_seqs st @ ns,
                 pareto_candidates := pc,
                 pareto_targets := pt,
                 pareto_seqs := map mutant_residue_seq pc,
                 pareto_cand_history := safe_np_cat [pareto_cand_history st, hc],
                 pareto_seq_history := safe_np_cat [pareto_seq_history st, hs],
                 pareto_target_history := safe_np_cat [pareto_target_history st, ht],
                 norm_pareto_targets := pt,
                 metrics := make_metrics pt r (total_bb_evals st),
                 wandb_log := log_optimizer_metrics pt r (total_bb_evals st)
                                (log_candidates nc nt r (wandb_log st))\<rparr>"
    by (auto simp: accept_candidates_def new bind_err_eq_Inr)
  let ?m = "map (\<lambda>s. s \<notin> set ?h) (map mutant_residue_seq pc)"
  from b have hc: "hc = mask_select pc ?m" and hs: "hs = mask_select (map mutant_residue_seq pc) ?m"
    and ht: "ht = mask_select pt ?m"
    by (simp_all add: bool_index3_Inr not_in1d)
  have hc': "hc = filter (\<lambda>c. mutant_residue_seq c \<notin> set ?h) pc"
    unfolding hc by (rule mask_select_key)
  have hs': "hs = filter (\<lambda>s. s \<notin> set ?h) (map mutant_residue_seq pc)"
    unfolding hs by (rule mask_select_self)
  have ht': "ht = map fst (filter (\<lambda>p. mutant_residue_seq (snd p) \<notin> set ?h) (zip pt pc))"
    unfolding ht using mask_select_map [of pt "\<lambda>c. mutant_residue_seq c \<notin> set ?h" pc]
    by (simp add: comp_def)
  show ?thesis
    using f by (simp add: st' new safe_np_cat_def hc' hs' ht')
qed


lemma bind_err_InrE:
  assumes "bind_err m f = Inr y"
  obtains x where "m = Inr x" and "f x = Inr y"
  using assms by (auto simp: bind_err_eq_Inr)

lemma evaluate_round_Inr:
  assumes ev: "evaluate_round feas inp r st = Inr st'"
  shows "\<exists>new. surviving feas inp (all_seqs st) = Inr new \<and>
     (if no_candidates new then skipped_round inp st st'
      else accept_candidates r new
             (st\<lparr>total_bb_evals := total_bb_evals st + res_bb_evals inp\<rparr>) = Inr st')"
proof -
  let ?st1 = "st\<lparr>total_bb_evals := total_bb_evals st + res_bb_evals inp\<rparr>"
  from ev obtain fs where
    f: "filter_feasible feas inp = Inr fs" and
    rest: "(if no_candidates fs then Inr ?st1
            else bind_err (filter_duplicates fs) (\<lambda>uniq.
                 bind_err (filter_redundant (all_seqs ?st1) uniq) (\<lambda>new.
                   if no_candidates new then
                     Inr (?st1\<lparr>wandb_log := log_optimizer_metrics (norm_pareto_targets ?st1) r
                                         (total_bb_evals ?st1) (wandb_log ?st1)\<rparr>)
                   else accept_candidates r new ?st1))) = Inr st'"
    unfolding evaluate_round_def Let_def bind_err_eq_Inr by blast
  show ?thesis
  proof (cases "no_candidates fs")
    case True
    then have "st' = ?st1" using rest by simp
    then have "skipped_round inp st st'" by (simp add: skipped_round_def)
    moreover have "surviving feas inp (all_seqs st) = Inr fs"
      using f True by (simp add: surviving_def)
    ultimately show ?thesis using True by (intro exI [of _ fs]) simp
  next
    case False
    let ?k = "\<lambda>new. if no_candidates new then
               Inr (?st1\<lparr>wandb_log := log_optimizer_metrics (norm_pareto_targets ?st1) r
                                  (total_bb_evals ?st1) (wandb_log ?st1)\<rparr>)
             else accept_candidates r new ?st1"
    have "bind_err (filter_duplicates fs) (\<lambda>uniq.
            bind_err (filter_redundant (all_seqs ?st1) uniq) ?k) = Inr st'"
      using rest False by (simp only: if_False)
    then obtain uniq where
      d: "filter_duplicates fs = Inr uniq" and
      r3: "bind_err (filter_redundant (all_seqs ?st1) uniq) ?k = Inr st'"
      by (rule bind_err_InrE)
    from r3 obtain new where
      n: "filter_redundant (all_seqs ?st1) uniq = Inr new" and
      fin: "?k new = Inr st'"
      by (rule bind_err_InrE)
    have s: "surviving feas inp (all_seqs st) = Inr new"
      using f False d n by (simp add: surviving_def)
    show ?thesis
    proof (cases "no_candidates new")
      case True
      then have "st' = ?st1\<lparr>wandb_log := log_optimizer_metrics (norm_pareto_targets ?st1) r
                                  (total_bb_evals ?st1) (wandb_log ?st1)\<rparr>"
        using fin by (simp only: if_True sum.inject)
      then have "skipped_round inp st st'" by (simp add: skipped_round_def)
      then show ?thesis using s True by (intro exI [of _ new]) simp
    next
      case False
      then have "accept_candidates r new ?st1 = Inr st'" using fin by simp
      then show ?thesis using s False by (intro exI [of _ new]) simp
    qed
  qed
qed



lemma round_body_Inr:
  assumes "round_body cfg feas inp r st = Inr st'"
  obtains st1 where "prepare_active cfg inp r (st\<lparr>round_idx := r\<rparr>) = Inr st1"
    and "active_only (st\<lparr>round_idx := r\<rparr>) st1"
    and "evaluate_round feas inp r st1 = Inr st'"
proof -
  from assms obtain st1 where
    p: "prepare_active cfg inp r (st\<lparr>round_idx := r\<rparr>) = Inr st1" and
    e: "evaluate_round feas inp r st1 = Inr st'"
    unfolding round_body_def by (rule bind_err_InrE)
  from prepare_active_frame [OF p] show ?thesis using p e that by blast
qed



lemma run_rounds_Suc:
  assumes "run_rounds cfg feas inputs r (Suc k) st = Inr st'"
  obtains st1 where "round_body cfg feas (inputs r) r st = Inr st1"
    and "run_rounds cfg feas inputs (Suc r) k st1 = Inr st'"
  using assms unfolding run_rounds.simps by (rule bind_err_InrE)



lemma initialize_Inr:
  assumes "initialize cfg feas pool tgts seqs atgts = Inr st"
  obtains pt pc ptg where "bool_index tgts (map feas pool) = Inr pt"
    and "pareto_frontier (filter feas pool) pt True = Inr (pc, ptg)"
    and "st = initial_state (filter feas pool) pt seqs atgts pc ptg"
proof -
  have ms: "mask_select pool (map feas pool) = filter feas pool" by (rule mask_select_self)
  from assms obtain pt where
    b: "bool_index tgts (map feas pool) = Inr pt" and
    r1: "bind_err (pareto_frontier (filter feas pool) pt True) (\<lambda>(pc, ptg).
           bind_err (best_obj_vals cfg ptg) (\<lambda>_.
           bind_err (check_residue_sampler cfg) (\<lambda>_.
             Inr (initial_state (filter feas pool) pt seqs atgts pc ptg)))) = Inr st"
    unfolding initialize_def ms by (rule bind_err_InrE)
  from r1 obtain res where
    f: "pareto_frontier (filter feas pool) pt True = Inr res" and
    r2: "(case res of (pc, ptg) \<Rightarrow>
           bind_err (best_obj_vals cfg ptg) (\<lambda>_.
           bind_err (check_residue_sampler cfg) (\<lambda>_.
             Inr (initial_state (filter feas pool) pt seqs atgts pc ptg)))) = Inr st"
    by (rule bind_err_InrE)
  obtain pc ptg where res: "res = (pc, ptg)" by (cases res) auto
  from r2 have "st = initial_state (filter feas pool) pt seqs atgts pc ptg"
    unfolding res by (auto simp: bind_err_eq_Inr)
  then show ?thesis using b f that unfolding res by blast
qed





section \<open>The directions of the frontier computations\<close>

lemma spec_dominates_irrefl: "\<not> spec_dominates m v v"
  by (auto simp: spec_dominates_def list_ex_iff in_set_zip)

lemma zip_swap_ex:
  "(\<exists>p \<in> set (zip w v). P (fst p) (snd p)) = (\<exists>p \<in> set (zip v w). P (snd p) (fst p))"
proof -
  have "set (zip v w) = (\<lambda>p. (snd p, fst p)) ` set (zip w v)"
    using zip_commute [of v w] by (simp add: split_def)
  then show ?thesis by simp
qed

lemma spec_dominates_opposite: "spec_dominates True w v = spec_dominates False v w"
proof -
  have a: "list_all2 (\<lambda>a b. b \<le> a) w v = list_all2 (\<lambda>a b. a \<le> b) v w"
    by (auto simp: list_all2_conv_all_nth)
  have b: "(\<exists>p \<in> set (zip w v). snd p < fst p) = (\<exists>p \<in> set (zip v w). fst p < snd p)"
    by (rule zip_swap_ex [where P = "\<lambda>a b. b < a"])
  show ?thesis
    using a b by (simp add: spec_dominates_def list_ex_iff split_def)
qed

lemma pareto_frontier_spec:
  assumes "pareto_frontier cands objs maximize = Inr (fc, fo)"
  shows "fo = filter (spec_non_dominated maximize objs) objs"
proof (cases "length cands = 1")
  case True
  then have eq: "fo = objs" and len: "length objs = 1"
    using assms by (auto simp: pareto_frontier_def split: if_splits)
  from len obtain v where "objs = [v]" by (cases objs) auto
  then show ?thesis
    using eq by (simp add: spec_non_dominated_def spec_dominates_irrefl)
next
  case False
  then have "fo = mask_select objs (pareto_mask maximize objs)"
    using assms by (auto simp: pareto_frontier_def split: if_splits)
  then show ?thesis by (simp add: pareto_mask_spec mask_select_self)
qed

lemma contract_Inr:
  assumes "contract cfg r st = Inr st'" and "0 < concentrate_pool cfg"
    and "int r mod concentrate_pool cfg = 0"
  shows "pareto_frontier (active_candidates st) (active_targets st) False =
     Inr (active_candidates st', active_targets st')"
proof -
  from assms have "bind_err (pareto_frontier (active_candidates st) (active_targets st) False)
      (\<lambda>(cands, tgts). Inr (st\<lparr>active_candidates := cands, active_targets := tgts,
                                active_seqs := map mutant_residue_seq cands\<rparr>)) = Inr st'"
    by (simp add: contract_def)
  then obtain fc fo where
    f: "pareto_frontier (active_candidates st) (active_targets st) False = Inr (fc, fo)" and
    k: "st' = st\<lparr>active_candidates := fc, active_targets := fo,
                  active_seqs := map mutant_residue_seq fc\<rparr>"
    by (auto simp: bind_err_eq_Inr)
  show ?thesis using f by (simp add: k)
qed

text \<open>
  Claim C7. The initial frontier, which seeds the history, is the frontier of the feasible
  pool under maximize; the contraction of the active set, when it runs, and the
  recomputation of the global frontier in a round that accepts proposals are frontiers
  under minimize. What a frontier call keeps are the vectors that no vector of its input
  dominates in its direction, and the two directions are opposite: one vector dominates
  another under maximize exactly when the other dominates it under minimize. In the
  initial state the active set is the pool itself, so a contraction in round 1 applies
  minimize to the vectors whose frontier under maximize has just seeded the history.
\<close>

theorem opposite_dominance_directions:
  "(initialize cfg is_feasible candidate_pool pool_targets0 all_seqs0 all_targets0 = Inr st
      \<longrightarrow>
      pareto_frontier (pool_candidates st) (pool_targets st) True =
        Inr (pareto_candidates st, pareto_targets st) \<and>
      pareto_cand_history st = pareto_candidates st \<and>
      pareto_target_history st = pareto_targets st \<and>
      active_candidates st = pool_candidates st \<and>
      active_targets st = pool_targets st) \<and>
   (contract cfg r st1 = Inr st1' \<and> 0 < concentrate_pool cfg \<and>
      int r mod concentrate_pool cfg = 0 \<longrightarrow>
      pareto_frontier (active_candidates st1) (active_targets st1) False =
        Inr (active_candidates st1', active_targets st1')) \<and>
   (accept_candidates r new st2 = Inr st2' \<longrightarrow>
      pareto_frontier (pareto_candidates st2 @ fst (snd new))
        (pareto_targets st2 @ snd (snd new)) False =
        Inr (pareto_candidates st2', pareto_targets st2')) \<and>
   (pareto_frontier cands objs maximize = Inr (fc, fo) \<longrightarrow>
      fo = filter (spec_non_dominated maximize objs) objs) \<and>
   spec_dominates True w v = spec_dominates False v w"
proof (intro conjI impI)
  assume "initialize cfg is_feasible candidate_pool pool_targets0 all_seqs0 all_targets0
      = Inr st"
  then obtain pt pc ptg where
    f: "pareto_frontier (filter is_feasible candidate_pool) pt True = Inr (pc, ptg)" and
    st: "st = initial_state (filter is_feasible candidate_pool) pt all_seqs0 all_targets0
           pc ptg"
    by (rule initialize_Inr)
  show "pareto_frontier (pool_candidates st) (pool_targets st) True =
        Inr (pareto_candidates st, pareto_targets st)"
    using f by (simp add: st initial_state_def)
  show "pareto_cand_history st = pareto_candidates st"
    and "pareto_target_history st = pareto_targets st"
    and "active_candidates st = pool_candidates st"
    and "active_targets st = pool_targets st"
    by (simp_all add: st initial_state_def)
next
  assume h: "contract cfg r st1 = Inr st1' \<and> 0 < concentrate_pool cfg \<and>
      int r mod concentrate_pool cfg = 0"
  show "pareto_frontier (active_candidates st1) (active_targets st1) False =
        Inr (active_candidates st1', active_targets st1')"
    using h [THEN conjunct1] h [THEN conjunct2, THEN conjunct1]
      h [THEN conjunct2, THEN conjunct2]
    by (rule contract_Inr)
next
  assume "accept_candidates r new st2 = Inr st2'"
  from accept_candidates_Inr [OF this] obtain pc pt where
    "pareto_frontier (pareto_candidates st2 @ fst (snd new))
        (pareto_targets st2 @ snd (snd new)) False = Inr (pc, pt)"
    and "pareto_candidates st2' = pc" and "pareto_targets st2' = pt"
    by blast
  then show "pareto_frontier (pareto_candidates st2 @ fst (snd new))
        (pareto_targets st2 @ snd (snd new)) False =
        Inr (pareto_candidates st2', pareto_targets st2')"
    by (simp only:)
next
  assume "pareto_frontier cands objs maximize = Inr (fc, fo)"
  then show "fo = filter (spec_non_dominated maximize objs) objs"
    by (rule pareto_frontier_spec)
next
  show "spec_dominates True w v = spec_dominates False v w"
    by (rule spec_dominates_opposite)
qed

theorem opposite_dominance_directions_witness:
  "\<exists>st st'. initialize (ex_config 1 2 1) ex_feasible [ex_cand 1 ''A'', ex_cand 2 ''B'']
       [[1, 1], [2, 2]] [''A'', ''B''] [[1, 1], [2, 2]] = Inr st \<and>
     active_targets st = [[1, 1], [2, 2]] \<and> pareto_targets st = [[2, 2]] \<and>
     pareto_target_history st = [[2, 2]] \<and>
     pareto_frontier (pool_candidates st) (pool_targets st) True =
       Inr (pareto_candidates st, pareto_targets st) \<and>
     contract (ex_config 1 2 1) 1 st = Inr st' \<and> active_targets st' = [[1, 1]] \<and>
     pareto_frontier (active_candidates st) (active_targets st) False =
       Inr (active_candidates st', active_targets st')"
proof -
  let ?init = "initialize (ex_config 1 2 1) ex_feasible [ex_cand 1 ''A'', ex_cand 2 ''B'']
       [[1, 1], [2, 2]] [''A'', ''B''] [[1, 1], [2, 2]]"
  have "bind_err ?init (\<lambda>st. bind_err (contract (ex_config 1 2 1) 1 st) (\<lambda>st'.
      Inr (active_targets st, pareto_targets st, pareto_target_history st,
           active_targets st'))) = Inr ([[1, 1], [2, 2]], [[2, 2]], [[2, 2]], [[1, 1]])"
    by (simp add: model_defs)
  then obtain st where
    i: "?init = Inr st" and
    r: "bind_err (contract (ex_config 1 2 1) 1 st) (\<lambda>st'.
      Inr (active_targets st, pareto_targets st, pareto_target_history st,
           active_targets st')) = Inr ([[1, 1], [2, 2]], [[2, 2]], [[2, 2]], [[1, 1]])"
    by (rule bind_err_InrE)
  from r obtain st' where
    c: "contract (ex_config 1 2 1) 1 st = Inr st'" and
    v: "Inr (active_targets st, pareto_targets st, pareto_target_history st,
           active_targets st') =
        (Inr ([[1, 1], [2, 2]], [[2, 2]], [[2, 2]], [[1, 1]])
           :: error + (real list list \<times> real list list \<times> real list list \<times> real list list))"
    by (rule bind_err_InrE)
  from v have v1: "active_targets st = [[1, 1], [2, 2]]" and v2: "pareto_targets st = [[2, 2]]"
    and v3: "pareto_target_history st = [[2, 2]]" and v4: "active_targets st' = [[1, 1]]"
    by simp_all
  have cp: "0 < concentrate_pool (ex_config 1 2 1)"
    "int 1 mod concentrate_pool (ex_config 1 2 1) = 0"
    by (simp_all add: ex_config_def)
  note T = opposite_dominance_directions [where cfg = "ex_config 1 2 1"
        and is_feasible = ex_feasible and candidate_pool = "[ex_cand 1 ''A'', ex_cand 2 ''B'']"
        and ?pool_targets0.0 = "[[1, 1], [2, 2]]" and ?all_seqs0.0 = "[''A'', ''B'']"
        and ?all_targets0.0 = "[[1, 1], [2, 2]]" and st = st and r = 1 and ?st1.0 = st
        and st1' = st']
  have a: "pareto_frontier (pool_candidates st) (pool_targets st) True =
       Inr (pareto_candidates st, pareto_targets st)"
    using T [THEN conjunct1] i by simp
  have b: "pareto_frontier (active_candidates st) (active_targets st) False =
       Inr (active_candidates st', active_targets st')"
    using T [THEN conjunct2, THEN conjunct1] c cp by simp
  show ?thesis
    using i v1 v2 v3 a c v4 b by (intro exI [of _ st] exI [of _ st'] conjI)
qed

section \<open>The rounds of a run\<close>

lemma bind_err_assoc:
  "bind_err (bind_err m f) g = bind_err m (\<lambda>x. bind_err (f x) g)"
  by (cases m) simp_all

lemma run_rounds_snoc:
  "run_rounds cfg feas inputs r (Suc k) st =
   bind_err (run_rounds cfg feas inputs r k st) (round_body cfg feas (inputs (r + k)) (r + k))"
proof (induction k arbitrary: r st)
  case 0
  show ?case by (cases "round_body cfg feas (inputs r) r st") simp_all
next
  case (Suc k)
  show ?case
  proof (cases "round_body cfg feas (inputs r) r st")
    case (Inl e)
    then show ?thesis by simp
  next
    case (Inr st1)
    have "run_rounds cfg feas inputs r (Suc (Suc k)) st =
        run_rounds cfg feas inputs (Suc r) (Suc k) st1"
      using Inr by simp
    also have "\<dots> = bind_err (run_rounds cfg feas inputs (Suc r) k st1)
        (round_body cfg feas (inputs (Suc r + k)) (Suc r + k))"
      by (rule Suc.IH)
    also have "run_rounds cfg feas inputs (Suc r) k st1 = run_rounds cfg feas inputs r (Suc k) st"
      using Inr by simp
    finally show ?thesis by simp
  qed
qed

lemma contract_num_rounds: "contract (cfg\<lparr>num_rounds := n\<rparr>) = contract cfg"
  by (intro ext) (simp add: contract_def)

lemma backtrack_num_rounds:
  "backtrack_augment (cfg\<lparr>num_rounds := n\<rparr>) = backtrack_augment cfg"
  by (intro ext) (simp add: backtrack_augment_def)

lemma random_num_rounds: "random_augment (cfg\<lparr>num_rounds := n\<rparr>) = random_augment cfg"
  by (intro ext) (simp add: random_augment_def)

lemma augment_num_rounds: "augment (cfg\<lparr>num_rounds := n\<rparr>) = augment cfg"
  by (intro ext) (simp add: augment_def backtrack_num_rounds random_num_rounds)

lemma round_body_num_rounds: "round_body (cfg\<lparr>num_rounds := n\<rparr>) = round_body cfg"
  by (intro ext)
    (simp add: round_body_def prepare_active_def augment_num_rounds contract_num_rounds)

lemma run_rounds_num_rounds:
  "run_rounds (cfg\<lparr>num_rounds := n\<rparr>) feas inputs r k = run_rounds cfg feas inputs r k"
proof (induction k arbitrary: r)
  case 0
  show ?case by (intro ext) simp
next
  case (Suc k)
  show ?case by (intro ext) (simp add: round_body_num_rounds Suc.IH)
qed

lemma initialize_num_rounds:
  "initialize (cfg\<lparr>num_rounds := n\<rparr>) feas pool tgts seqs atgts =
   initialize cfg feas pool tgts seqs atgts"
  by (simp add: initialize_def check_residue_sampler_def best_obj_vals_def)

lemma optimize_state_num_rounds:
  "optimize_state (cfg\<lparr>num_rounds := n\<rparr>) feas inputs pool tgts seqs atgts =
   bind_err (initialize cfg feas pool tgts seqs atgts) (run_rounds cfg feas inputs 1 n)"
  by (simp add: optimize_state_def initialize_num_rounds run_rounds_num_rounds)

text \<open>What one round does to the counters and to the \<^verbatim>\<open>metrics\<close> variable.\<close>

lemma round_body_metrics:
  assumes rb: "round_body cfg feas inp r st = Inr st'"
  shows "\<exists>new. surviving feas inp (all_seqs st) = Inr new \<and>
     (if no_candidates new then metrics st' = metrics st
      else metrics st' = make_metrics (pareto_targets st') r (total_bb_evals st')) \<and>
     round_idx st' = r \<and>
     total_bb_evals st' = total_bb_evals st + res_bb_evals inp"
proof -
  from rb obtain st1 where
    a: "active_only (st\<lparr>round_idx := r\<rparr>) st1" and
    e: "evaluate_round feas inp r st1 = Inr st'"
    by (rule round_body_Inr)
  from a have f: "all_seqs st1 = all_seqs st" "round_idx st1 = r"
    "total_bb_evals st1 = total_bb_evals st" "metrics st1 = metrics st"
    by (simp_all add: active_only_def)
  let ?st2 = "st1\<lparr>total_bb_evals := total_bb_evals st1 + res_bb_evals inp\<rparr>"
  from evaluate_round_Inr [OF e] obtain new where
    s: "surviving feas inp (all_seqs st1) = Inr new" and
    c: "if no_candidates new then skipped_round inp st1 st'
        else accept_candidates r new ?st2 = Inr st'"
    by blast
  show ?thesis
  proof (cases "no_candidates new")
    case True
    then have "skipped_round inp st1 st'" using c by simp
    then have "metrics st' = metrics st1" "round_idx st' = round_idx st1"
      "total_bb_evals st' = total_bb_evals st1 + res_bb_evals inp"
      by (simp_all add: skipped_round_def)
    then show ?thesis using s True f by (intro exI [of _ new]) simp
  next
    case False
    then have "accept_candidates r new ?st2 = Inr st'" using c by simp
    from accept_candidates_Inr [OF this] obtain pc pt where
      "pareto_targets st' = pt" "metrics st' = make_metrics pt r (total_bb_evals ?st2)"
      "total_bb_evals st' = total_bb_evals ?st2" "round_idx st' = round_idx ?st2"
      by blast
    then show ?thesis using s False f by (intro exI [of _ new]) simp
  qed
qed

lemma run_rounds_counters:
  "run_rounds cfg feas inputs r k st = Inr st' \<Longrightarrow>
   total_bb_evals st' = total_bb_evals st + (\<Sum>q = r..<r + k. res_bb_evals (inputs q)) \<and>
   (0 < k \<longrightarrow> round_idx st' = r + k - 1) \<and>
   (metrics st' = metrics st \<or>
    (r \<le> m_round_idx (metrics st') \<and> m_round_idx (metrics st') < r + k))"
proof (induction k arbitrary: r st)
  case 0
  then show ?case by simp
next
  case (Suc k)
  from Suc.prems obtain st1 where
    rb: "round_body cfg feas (inputs r) r st = Inr st1" and
    rest: "run_rounds cfg feas inputs (Suc r) k st1 = Inr st'"
    by (rule run_rounds_Suc)
  from round_body_metrics [OF rb] obtain new where
    m1: "if no_candidates new then metrics st1 = metrics st
         else metrics st1 = make_metrics (pareto_targets st1) r (total_bb_evals st1)" and
    r1: "round_idx st1 = r" and
    t1: "total_bb_evals st1 = total_bb_evals st + res_bb_evals (inputs r)"
    by blast
  from Suc.IH [OF rest] have
    t2: "total_bb_evals st' =
         total_bb_evals st1 + (\<Sum>q = Suc r..<Suc r + k. res_bb_evals (inputs q))" and
    r2: "0 < k \<longrightarrow> round_idx st' = Suc r + k - 1" and
    m2: "metrics st' = metrics st1 \<or>
         (Suc r \<le> m_round_idx (metrics st') \<and> m_round_idx (metrics st') < Suc r + k)"
    by simp_all
  have m1': "metrics st1 = metrics st \<or> m_round_idx (metrics st1) = r"
    using m1 by (cases "no_candidates new") (simp_all add: make_metrics_def)
  have "total_bb_evals st' =
      total_bb_evals st + (\<Sum>q = r..<r + Suc k. res_bb_evals (inputs q))"
    using t1 t2 by (simp add: sum.atLeast_Suc_lessThan)
  moreover have "round_idx st' = r + Suc k - 1"
  proof (cases k)
    case 0
    then have "st' = st1" using rest by simp
    then show ?thesis using r1 0 by simp
  next
    case (Suc j)
    then show ?thesis using r2 by simp
  qed
  moreover have "metrics st' = metrics st \<or>
      (r \<le> m_round_idx (metrics st') \<and> m_round_idx (metrics st') < r + Suc k)"
    using m1' m2 by auto
  ultimately show ?case by simp
qed

section \<open>Runs on well-formed inputs return\<close>

lemma length_mask_select:
  "length xs = length ys \<Longrightarrow> length (mask_select xs m) = length (mask_select ys m)"
proof (induction xs ys arbitrary: m rule: list_induct2)
  case Nil
  then show ?case by (simp add: mask_select_def)
next
  case (Cons x xs y ys)
  then show ?case by (cases m) (auto simp: mask_select_def)
qed

lemma pareto_frontier_total:
  assumes "length cands = length objs"
  obtains fc fo where "pareto_frontier cands objs mx = Inr (fc, fo)"
    and "length fo = length fc"
proof -
  from assms have "\<exists>res. pareto_frontier cands objs mx = Inr res"
    by (simp add: pareto_frontier_def)
  then obtain res where r: "pareto_frontier cands objs mx = Inr res" by blast
  obtain fc fo where res: "res = (fc, fo)" by (cases res) auto
  from pareto_frontier_length [OF r [unfolded res]] have "length fo = length fc" by simp
  then show ?thesis using r that unfolding res by blast
qed

lemma contract_total:
  assumes al: "aligned st"
  obtains st' where "contract cfg r st = Inr st'" and "aligned st'"
proof (cases "0 < concentrate_pool cfg \<and> int r mod concentrate_pool cfg = 0")
  case False
  then have "contract cfg r st = Inr st" by (auto simp: contract_def)
  then show ?thesis using al that by blast
next
  case True
  from al have "length (active_candidates st) = length (active_targets st)"
    by (simp add: aligned_def)
  then obtain fc fo where
    f: "pareto_frontier (active_candidates st) (active_targets st) False = Inr (fc, fo)" and
    l: "length fo = length fc"
    by (rule pareto_frontier_total)
  let ?st = "st\<lparr>active_candidates := fc, active_targets := fo,
                active_seqs := map mutant_residue_seq fc\<rparr>"
  have "contract cfg r st = Inr ?st" using True f by (simp add: contract_def)
  moreover have "aligned ?st" using al l by (simp add: aligned_def)
  ultimately show ?thesis using that by blast
qed

lemma draw_in_range:
  assumes "is_ordering n (draw n)"
  shows "list_all (\<lambda>i. i < n) (take k (draw n))"
proof -
  have "set (take k (draw n)) \<subseteq> set (draw n)" by (rule set_take_subset)
  then show ?thesis using assms by (auto simp: is_ordering_def list_all_iff)
qed

lemma extend_active_total:
  assumes al: "aligned st" and r: "list_all (\<lambda>i. i < n) idxs"
    and lc: "length cs = n" and lt: "length ts = n" and ls: "length ss = n"
  obtains st' where "extend_active cs ts ss idxs st = Inr st'" and "aligned st'"
    and "active_only st st'"
proof -
  let ?st = "st\<lparr>active_candidates := active_candidates st @ map (nth cs) idxs,
                active_targets := active_targets st @ map (nth ts) idxs,
                active_seqs := active_seqs st @ map (nth ss) idxs\<rparr>"
  have "extend_active cs ts ss idxs st = Inr ?st"
    using r by (simp add: extend_active_Inr lc lt ls)
  moreover have "aligned ?st" using al by (simp add: aligned_def)
  moreover have "active_only st ?st" by (simp add: active_only_def)
  ultimately show ?thesis using that by blast
qed

lemma list_all_filter: "list_all P xs \<Longrightarrow> list_all P (filter Q xs)"
  by (simp add: list_all_iff)

lemma list_all_take: "list_all P xs \<Longrightarrow> list_all P (take k xs)"
  by (auto simp: list_all_iff dest: in_set_takeD)

lemma backtrack_total:
  assumes al: "aligned st"
    and dr: "is_ordering (length (pareto_cand_history st)) (draw (length (pareto_cand_history st)))"
  obtains st' where "backtrack_augment cfg draw st = Inr st'" and "aligned st'"
    and "active_only st st'"
proof (cases "length (active_candidates st) < batch_size cfg")
  case False
  then have "backtrack_augment cfg draw st = Inr st" by (simp add: backtrack_augment_def)
  then show ?thesis using al that by (blast intro: active_only_refl)
next
  case True
  let ?n = "length (pareto_cand_history st)"
  let ?num = "min (batch_size cfg) ?n"
  let ?nb = "min ?num (batch_size cfg - length (active_candidates st))"
  let ?D = "take ?num (draw ?n)"
  let ?F = "filter (\<lambda>i. pareto_seq_history st ! i \<notin> set (active_seqs st)) ?D"
  from al have ls: "length (pareto_seq_history st) = ?n"
    and lt: "length (pareto_target_history st) = ?n"
    by (simp_all add: aligned_def)
  have rD: "list_all (\<lambda>i. i < ?n) ?D" using dr by (rule draw_in_range)
  have ch: "random_choice draw ?n ?num (length (pareto_target_history st)) = Inr ?D"
    by (simp add: random_choice_def lt)
  have na: "not_active (pareto_seq_history st) ?D (active_seqs st) = Inr ?F"
    using rD by (simp add: not_active_Inr ls)
  have rF: "list_all (\<lambda>i. i < ?n) (take ?nb ?F)"
    by (rule rD [THEN list_all_filter, THEN list_all_take])
  from extend_active_total [OF al rF refl lt ls]
  obtain st1 where
    e: "extend_active (pareto_cand_history st) (pareto_target_history st)
          (pareto_seq_history st) (take ?nb ?F) st = Inr st1" and
    a1: "aligned st1" and o1: "active_only st st1"
    by blast
  have eq: "backtrack_augment cfg draw st =
      (if 0 < length ?F then extend_active (pareto_cand_history st) (pareto_target_history st)
          (pareto_seq_history st) (take ?nb ?F) st else Inr st)"
    using True by (simp add: backtrack_augment_def Let_def ch na)
  show ?thesis
  proof (cases "0 < length ?F")
    case True
    then have "backtrack_augment cfg draw st = Inr st1" using eq e by simp
    then show ?thesis using a1 o1 that by blast
  next
    case False
    then have "backtrack_augment cfg draw st = Inr st" using eq by simp
    then show ?thesis using al that by (blast intro: active_only_refl)
  qed
qed

lemma random_total:
  assumes al: "aligned st"
    and dr: "is_ordering (length (pool_candidates st)) (draw (length (pool_candidates st)))"
  obtains st' where "random_augment cfg draw st = Inr st'" and "aligned st'"
    and "active_only st st'"
proof (cases "length (active_candidates st) < batch_size cfg")
  case False
  then have "random_augment cfg draw st = Inr st" by (simp add: random_augment_def)
  then show ?thesis using al that by (blast intro: active_only_refl)
next
  case True
  let ?n = "length (pool_candidates st)"
  let ?num = "min (batch_size cfg) ?n"
  let ?nr = "min ?num (batch_size cfg - length (active_candidates st))"
  let ?D = "take ?num (draw ?n)"
  let ?F = "filter (\<lambda>i. pool_seqs st ! i \<notin> set (active_seqs st)) ?D"
  from al have ls: "length (pool_seqs st) = ?n" and lt: "length (pool_targets st) = ?n"
    by (simp_all add: aligned_def)
  have rD: "list_all (\<lambda>i. i < ?n) ?D" using dr by (rule draw_in_range)
  have ch: "random_choice draw ?n ?num (length (pool_targets st)) = Inr ?D"
    by (simp add: random_choice_def lt)
  have na: "not_active (pool_seqs st) ?D (active_seqs st) = Inr ?F"
    using rD by (simp add: not_active_Inr ls)
  have rF: "list_all (\<lambda>i. i < ?n) (take ?nr ?F)"
    by (rule rD [THEN list_all_filter, THEN list_all_take])
  from extend_active_total [OF al rF refl lt ls]
  obtain st1 where
    e: "extend_active (pool_candidates st) (pool_targets st) (pool_seqs st)
          (take ?nr ?F) st = Inr st1" and
    a1: "aligned st1" and o1: "active_only st st1"
    by blast
  have "random_augment cfg draw st = Inr st1"
    using True by (simp add: random_augment_def Let_def ch na e)
  then show ?thesis using a1 o1 that by blast
qed

lemma prepare_active_total:
  assumes al: "aligned st" and wf: "well_formed_input inp"
  obtains st' where "prepare_active cfg inp r st = Inr st'" and "aligned st'"
proof -
  from al obtain st1 where
    c: "contract cfg r st = Inr st1" and a1: "aligned st1"
    by (rule contract_total)
  have "is_ordering (length (pareto_cand_history st1))
      (hist_draw inp (length (pareto_cand_history st1)))"
    using wf by (simp add: well_formed_input_def)
  with a1 obtain st2 where
    b: "backtrack_augment cfg (hist_draw inp) st1 = Inr st2" and a2: "aligned st2"
    by (rule backtrack_total)
  have "is_ordering (length (pool_candidates st2))
      (pool_draw inp (length (pool_candidates st2)))"
    using wf by (simp add: well_formed_input_def)
  with a2 obtain st3 where
    d: "random_augment cfg (pool_draw inp) st2 = Inr st3" and a3: "aligned st3"
    by (rule random_total)
  have "prepare_active cfg inp r st = Inr st3"
    by (simp add: prepare_active_def augment_def c b d)
  then show ?thesis using a3 that by blast
qed

lemma filter_feasible_total:
  assumes wf: "well_formed_input inp"
  obtains fs where "filter_feasible feas inp = Inr fs" and "aligned3 fs"
proof -
  let ?m = "map feas (res_candidates inp)"
  let ?fs = "(mask_select (res_seqs inp) ?m, mask_select (res_candidates inp) ?m,
      mask_select (res_targets inp) ?m)"
  from wf have l: "length (res_targets inp) = length (res_candidates inp)"
    "length (res_seqs inp) = length (res_candidates inp)"
    by (simp_all add: well_formed_input_def)
  have "filter_feasible feas inp = Inr ?fs"
    by (simp add: filter_feasible_def bool_index3_Inr l)
  moreover have "aligned3 ?fs"
    using length_mask_select [OF l(1), of ?m] length_mask_select [OF l(2), of ?m]
    by (simp add: aligned3_def)
  ultimately show ?thesis using that by blast
qed

lemma first_index_in_range:
  "list_all (\<lambda>i. i < length xs) (map (first_index xs) (sort (remdups xs)))"
  by (simp add: list_all_iff first_index_correct)

lemma filter_duplicates_total:
  assumes al: "aligned3 fs"
  obtains uniq where "filter_duplicates fs = Inr uniq" and "aligned3 uniq"
proof -
  obtain ns nc nt where fs: "fs = (ns, nc, nt)" by (cases fs) auto
  let ?vals = "sort (remdups ns)"
  let ?idxs = "map (first_index ns) ?vals"
  let ?u = "(?vals, map (nth nc) ?idxs, map (nth nt) ?idxs)"
  from al have l: "length nc = length ns" "length nt = length ns"
    by (simp_all add: aligned3_def fs)
  have r: "list_all (\<lambda>i. i < length ns) ?idxs" by (rule first_index_in_range)
  have ic: "int_index nc ?idxs = Inr (map (nth nc) ?idxs)"
    using r by (simp add: int_index_Inr l)
  have it: "int_index nt ?idxs = Inr (map (nth nt) ?idxs)"
    using r by (simp add: int_index_Inr l)
  have "filter_duplicates fs = Inr ?u"
    by (simp add: filter_duplicates_def fs np_unique_def Let_def ic it)
  moreover have "aligned3 ?u" by (simp add: aligned3_def)
  ultimately show ?thesis using that by blast
qed

lemma filter_redundant_total:
  assumes al: "aligned3 uniq"
  obtains new where "filter_redundant seen uniq = Inr new" and "aligned3 new"
proof -
  obtain us uc ut where u: "uniq = (us, uc, ut)" by (cases uniq) auto
  let ?m = "map Not (in1d us seen)"
  let ?n = "(mask_select us ?m, mask_select uc ?m, mask_select ut ?m)"
  from al have l: "length uc = length us" "length ut = length us"
    by (simp_all add: aligned3_def u)
  have lm: "length ?m = length us" by (simp add: in1d_def)
  have "filter_redundant seen uniq = Inr ?n"
    by (simp add: filter_redundant_def u bool_index3_Inr l in1d_def)
  moreover have "aligned3 ?n"
    using length_mask_select [OF l(1), of ?m] length_mask_select [OF l(2), of ?m]
    by (simp add: aligned3_def)
  ultimately show ?thesis using that by blast
qed

lemma accept_candidates_total:
  assumes al: "aligned st" and a3: "aligned3 new"
  obtains st' where "accept_candidates r new st = Inr st'" and "aligned st'"
proof -
  obtain ns nc nt where new: "new = (ns, nc, nt)" by (cases new) auto
  from a3 have l: "length nc = length ns" "length nt = length ns"
    by (simp_all add: aligned3_def new)
  from al have "length (pareto_candidates st @ nc) = length (pareto_targets st @ nt)"
    by (simp add: aligned_def l)
  then obtain pc pt where
    f: "pareto_frontier (pareto_candidates st @ nc) (pareto_targets st @ nt) False
          = Inr (pc, pt)" and
    lp: "length pt = length pc"
    by (rule pareto_frontier_total)
  let ?m = "map Not (in1d (map mutant_residue_seq pc) (pareto_seq_history st))"
  have lm: "length ?m = length pc" by (simp add: in1d_def)
  have b: "bool_index3 pc (map mutant_residue_seq pc) pt ?m =
      Inr (mask_select pc ?m, mask_select (map mutant_residue_seq pc) ?m, mask_select pt ?m)"
    by (simp add: bool_index3_Inr lp in1d_def)
  have h1: "length (mask_select (map mutant_residue_seq pc) ?m) = length (mask_select pc ?m)"
    by (rule length_mask_select) simp
  have h2: "length (mask_select pt ?m) = length (mask_select pc ?m)"
    using lp by (rule length_mask_select)
  let ?st = "st\<lparr>pool_candidates := pool_candidates st @ nc,
                 pool_targets := pool_targets st @ nt,
                 pool_seqs := pool_seqs st @ ns,
                 all_seqs := all_seqs st @ ns,
                 all_targets := all_targets st @ nt,
                 active_candidates := active_candidates st @ nc,
                 active_targets := active_targets st @ nt,
                 active_seqs := active_seqs st @ ns,
                 pareto_candidates := pc,
                 pareto_targets := pt,
                 pareto_seqs := map mutant_residue_seq pc,
                 pareto_cand_history := safe_np_cat [pareto_cand_history st, mask_select pc ?m],
                 pareto_seq_history := safe_np_cat [pareto_seq_history st,
                   mask_select (map mutant_residue_seq pc) ?m],
                 pareto_target_history := safe_np_cat [pareto_target_history st,
                   mask_select pt ?m],
                 norm_pareto_targets := pt,
                 metrics := make_metrics pt r (total_bb_evals st),
                 wandb_log := log_optimizer_metrics pt r (total_bb_evals st)
                                (log_candidates nc nt r (wandb_log st))\<rparr>"
  have "accept_candidates r new st = Inr ?st"
    by (simp add: accept_candidates_def new f b)
  moreover have "aligned ?st"
    using al l lp h1 h2 by (simp add: aligned_def safe_np_cat_def)
  ultimately show ?thesis using that by blast
qed

lemma evaluate_round_total:
  assumes al: "aligned st" and wf: "well_formed_input inp"
  obtains st' where "evaluate_round feas inp r st = Inr st'" and "aligned st'"
proof -
  let ?st1 = "st\<lparr>total_bb_evals := total_bb_evals st + res_bb_evals inp\<rparr>"
  have al1: "aligned ?st1" using al by (simp add: aligned_def)
  from wf obtain fs where
    f: "filter_feasible feas inp = Inr fs" and a3: "aligned3 fs"
    by (rule filter_feasible_total)
  show ?thesis
  proof (cases "no_candidates fs")
    case True
    then have "evaluate_round feas inp r st = Inr ?st1"
      by (simp add: evaluate_round_def f)
    then show ?thesis using al1 that by blast
  next
    case nf: False
    from a3 obtain uniq where
      d: "filter_duplicates fs = Inr uniq" and au: "aligned3 uniq"
      by (rule filter_duplicates_total)
    from au obtain new where
      n: "filter_redundant (all_seqs st) uniq = Inr new" and an: "aligned3 new"
      by (rule filter_redundant_total)
    show ?thesis
    proof (cases "no_candidates new")
      case True
      let ?st2 = "?st1\<lparr>wandb_log := log_optimizer_metrics (norm_pareto_targets ?st1) r
                                  (total_bb_evals ?st1) (wandb_log ?st1)\<rparr>"
      have "evaluate_round feas inp r st = Inr ?st2"
        using nf True by (simp add: evaluate_round_def f d n)
      moreover have "aligned ?st2" using al by (simp add: aligned_def)
      ultimately show ?thesis using that by blast
    next
      case False
      from al1 an obtain st' where
        acc: "accept_candidates r new ?st1 = Inr st'" and a': "aligned st'"
        by (rule accept_candidates_total)
      have "evaluate_round feas inp r st = Inr st'"
        using nf False by (simp add: evaluate_round_def f d n acc)
      then show ?thesis using a' that by blast
    qed
  qed
qed

lemma round_body_total:
  assumes al: "aligned st" and wf: "well_formed_input inp"
  obtains st' where "round_body cfg feas inp r st = Inr st'" and "aligned st'"
proof -
  have "aligned (st\<lparr>round_idx := r\<rparr>)" using al by (simp add: aligned_def)
  from this wf obtain st1 where
    p: "prepare_active cfg inp r (st\<lparr>round_idx := r\<rparr>) = Inr st1" and a1: "aligned st1"
    by (rule prepare_active_total)
  from a1 wf obtain st' where
    e: "evaluate_round feas inp r st1 = Inr st'" and a': "aligned st'"
    by (rule evaluate_round_total)
  have "round_body cfg feas inp r st = Inr st'" by (simp add: round_body_def p e)
  then show ?thesis using a' that by blast
qed

lemma run_rounds_total:
  "aligned st \<Longrightarrow> (\<forall>q. well_formed_input (inputs q)) \<Longrightarrow>
   \<exists>st'. run_rounds cfg feas inputs r k st = Inr st'"
proof (induction k arbitrary: r st)
  case 0
  then show ?case by simp
next
  case (Suc k)
  have "well_formed_input (inputs r)" using Suc.prems(2) by simp
  with Suc.prems(1) obtain st1 where
    rb: "round_body cfg feas (inputs r) r st = Inr st1" and a1: "aligned st1"
    by (rule round_body_total)
  from Suc.IH [OF a1 Suc.prems(2)] obtain st' where
    "run_rounds cfg feas inputs (Suc r) k st1 = Inr st'" by blast
  then show ?case by (simp add: rb)
qed

text \<open>
  A pool with at least one entry has a frontier with at least one entry: an objective
  vector of greatest coordinate sum is dominated by none. So the smallest objective values
  of lines 281 and 285 are taken of matrices with a row, and those of line 124 are unless
  no candidate of the pool is feasible.
\<close>

lemma list_all2_sum_le:
  "list_all2 (\<lambda>a b. a \<ge> b) z y \<Longrightarrow> sum_list y \<le> (sum_list z :: real)"
  by (induction rule: list_all2_induct) auto

lemma dominates_sum_list:
  assumes "dominates z y"
  shows "sum_list y < sum_list z"
proof -
  from assms have a: "list_all2 (\<lambda>a b. a \<ge> b) z y"
    and e: "\<exists>a b. (a, b) \<in> set (zip z y) \<and> a > b"
    by (auto simp: dominates_def list_ex_iff)
  from a e show ?thesis
  proof (induction rule: list_all2_induct)
    case Nil
    then show ?case by simp
  next
    case (Cons a z' b y')
    have le: "sum_list y' \<le> sum_list z'" using Cons.hyps(2) by (rule list_all2_sum_le)
    show ?case
    proof (cases "a > b")
      case True
      then show ?thesis using le by simp
    next
      case False
      then have "\<exists>a b. (a, b) \<in> set (zip z' y') \<and> a > b" using Cons.prems by auto
      then have "sum_list y' < sum_list z'" by (rule Cons.IH)
      then show ?thesis using Cons.hyps(1) by simp
    qed
  qed
qed

lemma non_dominated_exists:
  assumes "Y \<noteq> []"
  shows "\<exists>y \<in> set Y. \<not> list_ex (\<lambda>z. dominates z y) Y"
proof -
  let ?S = "sum_list ` set Y"
  have fin: "finite ?S" and ne: "?S \<noteq> {}" using assms by auto
  from Max_in [OF fin ne] obtain y where y: "y \<in> set Y" and m: "sum_list y = Max ?S"
    by auto
  have "\<not> dominates z y" if "z \<in> set Y" for z
  proof
    assume "dominates z y"
    then have "sum_list y < sum_list z" by (rule dominates_sum_list)
    moreover have "sum_list z \<le> Max ?S" using fin that by (intro Max_ge) auto
    ultimately show False using m by simp
  qed
  then have "\<not> list_ex (\<lambda>z. dominates z y) Y" by (auto simp: list_ex_iff)
  then show ?thesis using y by blast
qed

lemma is_non_dominated_has_True: "Y \<noteq> [] \<Longrightarrow> True \<in> set (is_non_dominated Y)"
  using non_dominated_exists [of Y] by (auto simp: is_non_dominated_def image_iff)

lemma pareto_mask_has_True: "objs \<noteq> [] \<Longrightarrow> True \<in> set (pareto_mask mx objs)"
  by (simp add: pareto_mask_def is_non_dominated_has_True)

lemma length_pareto_mask: "length (pareto_mask mx objs) = length objs"
  by (simp add: pareto_mask_def is_non_dominated_def)

lemma mask_select_not_empty:
  "length m = length xs \<Longrightarrow> True \<in> set m \<Longrightarrow> mask_select xs m \<noteq> []"
  by (induction m xs rule: list_induct2) (auto simp: mask_select_def)

lemma pareto_frontier_not_empty:
  assumes f: "pareto_frontier cands objs mx = Inr (fc, fo)" and ne: "cands \<noteq> []"
  shows "fo \<noteq> []"
proof -
  have len: "length cands = length objs"
    using f by (auto simp: pareto_frontier_def split: if_splits)
  then have o: "objs \<noteq> []" using ne by auto
  show ?thesis
  proof (cases "length cands = 1")
    case True
    then have "fo = objs" using f len by (simp add: pareto_frontier_def)
    then show ?thesis using o by simp
  next
    case False
    then have "fo = mask_select objs (pareto_mask mx objs)"
      using f len by (simp add: pareto_frontier_def)
    then show ?thesis
      using mask_select_not_empty [OF length_pareto_mask pareto_mask_has_True [OF o]]
      by simp
  qed
qed

lemma accepted_targets_not_empty:
  assumes fr: "filter_redundant seen uniq = Inr new"
    and ne: "\<not> no_candidates new"
    and acc: "accept_candidates r new st = Inr st'"
  shows "best_obj_vals cfg (snd (snd new)) = Inr () \<and>
     best_obj_vals cfg (pareto_targets st') = Inr ()"
proof -
  obtain us uc ut where u: "uniq = (us, uc, ut)" by (cases uniq) auto
  let ?m = "map Not (in1d us seen)"
  from fr have b: "bool_index3 us uc ut ?m = Inr new"
    by (simp add: filter_redundant_def u)
  then have l: "length uc = length ?m" "length ut = length ?m"
    by (auto simp: bool_index3_def bool_index_def bind_err_eq_Inr split: if_splits)
  from b have new: "new = (mask_select us ?m, mask_select uc ?m, mask_select ut ?m)"
    by (auto simp: bool_index3_def bool_index_def bind_err_eq_Inr split: if_splits)
  have "length (mask_select ut ?m) = length (mask_select uc ?m)"
    using l by (intro length_mask_select) simp
  then have nt: "snd (snd new) \<noteq> []" and nc: "fst (snd new) \<noteq> []"
    using ne by (auto simp: new no_candidates_def)
  from accept_candidates_Inr [OF acc] obtain pc pt where
    f: "pareto_frontier (pareto_candidates st @ fst (snd new))
          (pareto_targets st @ snd (snd new)) False = Inr (pc, pt)" and
    p: "pareto_targets st' = pt"
    by blast
  have "pt \<noteq> []" using f nc by (intro pareto_frontier_not_empty [OF f]) simp
  then show ?thesis using nt p by (simp add: best_obj_vals_def)
qed

lemma initialize_total:
  assumes l: "length tgts = length pool" and c: "check_residue_sampler cfg = Inr ()"
    and ne: "filter feas pool \<noteq> []"
  obtains st where "initialize cfg feas pool tgts seqs atgts = Inr st" and "aligned st"
proof -
  let ?m = "map feas pool"
  have b: "bool_index tgts ?m = Inr (mask_select tgts ?m)"
    by (simp add: bool_index_def l)
  have "length (mask_select pool ?m) = length (mask_select tgts ?m)"
    using l by (intro length_mask_select) simp
  then obtain pc pt where
    f: "pareto_frontier (mask_select pool ?m) (mask_select tgts ?m) True = Inr (pc, pt)" and
    lp: "length pt = length pc"
    by (rule pareto_frontier_total)
  have "mask_select pool ?m \<noteq> []" using ne by (simp add: mask_select_self)
  with f have "pt \<noteq> []" by (rule pareto_frontier_not_empty)
  then have v: "best_obj_vals cfg pt = Inr ()" by (simp add: best_obj_vals_def)
  let ?st = "initial_state (mask_select pool ?m) (mask_select tgts ?m) seqs atgts pc pt"
  have "initialize cfg feas pool tgts seqs atgts = Inr ?st"
    by (simp add: initialize_def b f c v)
  moreover have "aligned ?st"
    using lp length_mask_select [of tgts pool ?m] l
    by (simp add: aligned_def initial_state_def)
  ultimately show ?thesis using that by blast
qed

lemma initialize_empty_pool:
  assumes "filter feas pool = []" and "0 < obj_dim cfg" and "length tgts = length pool"
  shows "initialize cfg feas pool tgts seqs atgts = Inl ValueError"
proof -
  let ?m = "map feas pool"
  have b: "bool_index tgts ?m = Inr (mask_select tgts ?m)"
    by (simp add: bool_index_def assms(3))
  have e: "mask_select pool ?m = []" using assms(1) by (simp add: mask_select_self)
  have "length (mask_select tgts ?m) = length (mask_select pool ?m)"
    using assms(3) by (intro length_mask_select) simp
  then have t: "mask_select tgts ?m = []" using e by simp
  have f: "pareto_frontier ([] :: candidate list) [] True = Inr ([], [])"
    by (simp add: pareto_frontier_def pareto_mask_def is_non_dominated_def mask_select_def)
  show ?thesis
    by (simp add: initialize_def b e t f best_obj_vals_def assms(2))
qed

lemma initial_state_counters:
  "total_bb_evals (initial_state pc pt seqs atgts fc fo) = 0 \<and>
   round_idx (initial_state pc pt seqs atgts fc fo) = 0 \<and>
   m_round_idx (metrics (initial_state pc pt seqs atgts fc fo)) = 0"
  by (simp add: initial_state_def make_metrics_def)

lemma optimize_state_counters:
  assumes os: "optimize_state cfg feas inputs pool tgts seqs atgts = Inr st"
  shows "round_idx st = num_rounds cfg \<and>
     total_bb_evals st = (\<Sum>q = 1..num_rounds cfg. res_bb_evals (inputs q)) \<and>
     m_round_idx (metrics st) \<le> num_rounds cfg"
proof -
  from os obtain st0 where
    i: "initialize cfg feas pool tgts seqs atgts = Inr st0" and
    run: "run_rounds cfg feas inputs 1 (num_rounds cfg) st0 = Inr st"
    unfolding optimize_state_def by (rule bind_err_InrE)
  from i obtain pt pc ptg where
    "st0 = initial_state (filter feas pool) pt seqs atgts pc ptg"
    by (rule initialize_Inr)
  then have z: "total_bb_evals st0 = 0" "round_idx st0 = 0" "m_round_idx (metrics st0) = 0"
    using initial_state_counters by simp_all
  from run_rounds_counters [OF run] have
    t: "total_bb_evals st =
        total_bb_evals st0 + (\<Sum>q = 1..<1 + num_rounds cfg. res_bb_evals (inputs q))" and
    r: "0 < num_rounds cfg \<longrightarrow> round_idx st = 1 + num_rounds cfg - 1" and
    m: "metrics st = metrics st0 \<or>
        (1 \<le> m_round_idx (metrics st) \<and> m_round_idx (metrics st) < 1 + num_rounds cfg)"
    by simp_all
  have "{1..<1 + num_rounds cfg} = {1..num_rounds cfg}" by auto
  then have "total_bb_evals st = (\<Sum>q = 1..num_rounds cfg. res_bb_evals (inputs q))"
    using t z by simp
  moreover have "round_idx st = num_rounds cfg"
  proof (cases "num_rounds cfg")
    case 0
    then have "st = st0" using run by simp
    then show ?thesis using z 0 by simp
  next
    case (Suc j)
    then show ?thesis using r by simp
  qed
  moreover have "m_round_idx (metrics st) \<le> num_rounds cfg"
    using m z by auto
  ultimately show ?thesis by simp
qed

lemma optimize_final_round:
  assumes n: "num_rounds cfg = Suc n"
    and prev: "optimize_state (cfg\<lparr>num_rounds := n\<rparr>) feas inputs pool tgts seqs atgts
                 = Inr st_prev"
    and sv: "surviving feas (inputs (Suc n)) (all_seqs st_prev) = Inr new"
    and ne: "\<not> no_candidates new"
    and os: "optimize_state cfg feas inputs pool tgts seqs atgts = Inr st"
  shows "metrics st = make_metrics (pareto_targets st) (num_rounds cfg) (total_bb_evals st)"
proof -
  from prev obtain st0 where
    i: "initialize cfg feas pool tgts seqs atgts = Inr st0" and
    run: "run_rounds cfg feas inputs 1 n st0 = Inr st_prev"
    unfolding optimize_state_num_rounds by (rule bind_err_InrE)
  have full: "run_rounds cfg feas inputs 1 (Suc n) st0 = Inr st"
    using os i by (simp only: optimize_state_def n bind_err_Inr)
  have "run_rounds cfg feas inputs 1 (Suc n) st0 =
      bind_err (run_rounds cfg feas inputs 1 n st0)
        (round_body cfg feas (inputs (1 + n)) (1 + n))"
    by (rule run_rounds_snoc)
  then have "round_body cfg feas (inputs (Suc n)) (Suc n) st_prev = Inr st"
    using full by (simp only: run bind_err_Inr plus_1_eq_Suc)
  from round_body_metrics [OF this] obtain new' where
    s': "surviving feas (inputs (Suc n)) (all_seqs st_prev) = Inr new'" and
    m: "if no_candidates new' then metrics st = metrics st_prev
        else metrics st = make_metrics (pareto_targets st) (Suc n) (total_bb_evals st)"
    by blast
  from s' sv have "new' = new" by simp
  then show ?thesis using m ne n by simp
qed

lemma ex_input_well_formed:
  "length tgts = length cands \<Longrightarrow> well_formed_input (ex_input cands tgts)"
  by (simp add: well_formed_input_def ex_input_def is_ordering_def)

text \<open>
  The loop has no exit but an exception. A run that returns has executed every round from
  1 to \<open>num_rounds\<close>: the round index ends at \<open>num_rounds\<close> and the evaluation count is the
  sum over exactly these rounds; \<open>optimize\<close> returns the \<open>metrics\<close> variable, whose record
  is of a round not after \<open>num_rounds\<close>. When the proposals of the final round survive the
  filter pipeline, the record returned is the record of the final round. On a pool with a
  feasible candidate and targets of matching length, with a valid residue sampler and
  well-formed round inputs, the run returns; without a feasible candidate it ends in the
  ValueError of line 124 before the first round.
\<close>

lemma run_executes_all_rounds:
  "(optimize_state cfg is_feasible inputs candidate_pool pool_targets0 all_seqs0 all_targets0
      = Inr st \<longrightarrow>
      optimize cfg is_feasible inputs candidate_pool pool_targets0 all_seqs0 all_targets0
        = Inr (metrics st) \<and>
      round_idx st = num_rounds cfg \<and>
      total_bb_evals st = (\<Sum>q = 1..num_rounds cfg. res_bb_evals (inputs q)) \<and>
      m_round_idx (metrics st) \<le> num_rounds cfg) \<and>
   (num_rounds cfg = Suc n \<and>
      optimize_state (cfg\<lparr>num_rounds := n\<rparr>) is_feasible inputs candidate_pool pool_targets0
        all_seqs0 all_targets0 = Inr st_prev \<and>
      surviving is_feasible (inputs (Suc n)) (all_seqs st_prev) = Inr new \<and>
      \<not> no_candidates new \<and>
      optimize cfg is_feasible inputs candidate_pool pool_targets0 all_seqs0 all_targets0
        = Inr m \<longrightarrow>
      (\<exists>st'. optimize_state cfg is_feasible inputs candidate_pool pool_targets0 all_seqs0
               all_targets0 = Inr st' \<and>
             m = make_metrics (pareto_targets st') (num_rounds cfg)
                   (\<Sum>q = 1..num_rounds cfg. res_bb_evals (inputs q)))) \<and>
   (length pool_targets0 = length candidate_pool \<and> filter is_feasible candidate_pool \<noteq> [] \<and>
      check_residue_sampler cfg = Inr () \<and> (\<forall>q. well_formed_input (inputs q)) \<longrightarrow>
      (\<exists>st'. optimize_state cfg is_feasible inputs candidate_pool pool_targets0 all_seqs0
               all_targets0 = Inr st')) \<and>
   (length pool_targets0 = length candidate_pool \<and> filter is_feasible candidate_pool = [] \<and>
      0 < obj_dim cfg \<longrightarrow>
      optimize cfg is_feasible inputs candidate_pool pool_targets0 all_seqs0 all_targets0
        = Inl ValueError)"
proof (intro conjI impI)
  assume os: "optimize_state cfg is_feasible inputs candidate_pool pool_targets0 all_seqs0
      all_targets0 = Inr st"
  show "optimize cfg is_feasible inputs candidate_pool pool_targets0 all_seqs0 all_targets0
        = Inr (metrics st)"
    by (simp add: optimize_def os)
  from optimize_state_counters [OF os]
  show "round_idx st = num_rounds cfg"
    and "total_bb_evals st = (\<Sum>q = 1..num_rounds cfg. res_bb_evals (inputs q))"
    and "m_round_idx (metrics st) \<le> num_rounds cfg"
    by simp_all
next
  assume h: "num_rounds cfg = Suc n \<and>
      optimize_state (cfg\<lparr>num_rounds := n\<rparr>) is_feasible inputs candidate_pool pool_targets0
        all_seqs0 all_targets0 = Inr st_prev \<and>
      surviving is_feasible (inputs (Suc n)) (all_seqs st_prev) = Inr new \<and>
      \<not> no_candidates new \<and>
      optimize cfg is_feasible inputs candidate_pool pool_targets0 all_seqs0 all_targets0
        = Inr m"
  then have o: "optimize cfg is_feasible inputs candidate_pool pool_targets0 all_seqs0
      all_targets0 = Inr m" by simp
  then obtain st' where
    os: "optimize_state cfg is_feasible inputs candidate_pool pool_targets0 all_seqs0
           all_targets0 = Inr st'" and
    m: "Inr (metrics st') = (Inr m :: error + metrics_record)"
    unfolding optimize_def by (rule bind_err_InrE)
  have "metrics st' = make_metrics (pareto_targets st') (num_rounds cfg) (total_bb_evals st')"
    using h os
    by (intro optimize_final_round [where n = n and st_prev = st_prev and new = new]) simp_all
  moreover have "total_bb_evals st' = (\<Sum>q = 1..num_rounds cfg. res_bb_evals (inputs q))"
    using optimize_state_counters [OF os] by simp
  ultimately have "m = make_metrics (pareto_targets st') (num_rounds cfg)
      (\<Sum>q = 1..num_rounds cfg. res_bb_evals (inputs q))"
    using m by simp
  then show "\<exists>st'. optimize_state cfg is_feasible inputs candidate_pool pool_targets0 all_seqs0
               all_targets0 = Inr st' \<and>
             m = make_metrics (pareto_targets st') (num_rounds cfg)
                   (\<Sum>q = 1..num_rounds cfg. res_bb_evals (inputs q))"
    using os by blast
next
  assume h: "length pool_targets0 = length candidate_pool \<and>
      filter is_feasible candidate_pool \<noteq> [] \<and>
      check_residue_sampler cfg = Inr () \<and> (\<forall>q. well_formed_input (inputs q))"
  then obtain st0 where
    i: "initialize cfg is_feasible candidate_pool pool_targets0 all_seqs0 all_targets0
          = Inr st0" and
    a: "aligned st0"
    by (blast intro: initialize_total)
  from run_rounds_total [OF a] h obtain st' where
    "run_rounds cfg is_feasible inputs 1 (num_rounds cfg) st0 = Inr st'" by blast
  then show "\<exists>st'. optimize_state cfg is_feasible inputs candidate_pool pool_targets0 all_seqs0
               all_targets0 = Inr st'"
    by (simp add: optimize_state_def i)
next
  assume h: "length pool_targets0 = length candidate_pool \<and>
      filter is_feasible candidate_pool = [] \<and> 0 < obj_dim cfg"
  then have "initialize cfg is_feasible candidate_pool pool_targets0 all_seqs0 all_targets0
      = Inl ValueError"
    by (intro initialize_empty_pool) simp_all
  then show "optimize cfg is_feasible inputs candidate_pool pool_targets0 all_seqs0
      all_targets0 = Inl ValueError"
    by (simp add: optimize_def optimize_state_def)
qed

lemma run_executes_all_rounds_example:
  "\<exists>st m. optimize_state (ex_config 1 2 0) ex_feasible
       (\<lambda>r. ex_input [ex_cand 3 ''C''] [[3, 3]])
       [ex_cand 1 ''A'', ex_cand 2 ''B''] [[1, 1], [2, 2]] [''A'', ''B''] [[1, 1], [2, 2]]
       = Inr st \<and>
     optimize (ex_config 1 2 0) ex_feasible (\<lambda>r. ex_input [ex_cand 3 ''C''] [[3, 3]])
       [ex_cand 1 ''A'', ex_cand 2 ''B''] [[1, 1], [2, 2]] [''A'', ''B''] [[1, 1], [2, 2]]
       = Inr m \<and>
     m = metrics st \<and> round_idx st = 1 \<and> total_bb_evals st = 4 \<and>
     m = make_metrics (pareto_targets st) 1 4"
proof -
  let ?cfg = "ex_config 1 2 0"
  let ?inputs = "\<lambda>r::nat. ex_input [ex_cand 3 ''C''] [[3, 3]]"
  let ?pool = "[ex_cand 1 ''A'', ex_cand 2 ''B'']"
  let ?tgts = "[[1, 1], [2, 2]] :: real list list"
  let ?seqs = "[''A'', ''B'']"
  note T = run_executes_all_rounds [where cfg = ?cfg and is_feasible = ex_feasible
      and inputs = ?inputs and candidate_pool = ?pool and ?pool_targets0.0 = ?tgts
      and ?all_seqs0.0 = ?seqs and ?all_targets0.0 = ?tgts]
  have nr: "num_rounds ?cfg = Suc 0" by (simp add: ex_config_def)
  have w1: "length ?tgts = length ?pool" by simp
  have w2: "check_residue_sampler ?cfg = Inr ()"
    by (simp add: check_residue_sampler_def ex_config_def)
  have w3: "\<forall>q. well_formed_input (?inputs q)" by (simp add: ex_input_well_formed)
  have w4: "filter ex_feasible ?pool \<noteq> []" by (simp add: ex_feasible_def ex_cand_def)
  from T [THEN conjunct2, THEN conjunct2, THEN conjunct1] w1 w2 w3 w4 obtain st where
    os: "optimize_state ?cfg ex_feasible ?inputs ?pool ?tgts ?seqs ?tgts = Inr st"
    by blast
  note T1 = T [where st = st, THEN conjunct1, rule_format, OF os]
  from T1 have o: "optimize ?cfg ex_feasible ?inputs ?pool ?tgts ?seqs ?tgts = Inr (metrics st)"
    and r: "round_idx st = num_rounds ?cfg"
    and t: "total_bb_evals st = (\<Sum>q = 1..num_rounds ?cfg. res_bb_evals (?inputs q))"
    by simp_all
  have s4: "(\<Sum>q = 1..num_rounds ?cfg. res_bb_evals (?inputs q)) = 4"
    by (simp add: ex_config_def ex_input_def)
  have "bind_err (optimize_state (?cfg\<lparr>num_rounds := 0\<rparr>) ex_feasible ?inputs ?pool ?tgts
          ?seqs ?tgts) (\<lambda>st. Inr (all_seqs st)) = Inr [''A'', ''B'']"
    by (simp add: model_defs)
  then obtain st_prev where
    prev: "optimize_state (?cfg\<lparr>num_rounds := 0\<rparr>) ex_feasible ?inputs ?pool ?tgts ?seqs
             ?tgts = Inr st_prev" and
    "Inr (all_seqs st_prev) = (Inr [''A'', ''B''] :: error + string list)"
    by (rule bind_err_InrE)
  then have as: "all_seqs st_prev = [''A'', ''B'']" by simp
  have sv: "surviving ex_feasible (?inputs (Suc 0)) (all_seqs st_prev) =
      Inr ([''C''], [ex_cand 3 ''C''], [[3, 3]])"
    unfolding as by (simp add: surviving_def model_defs)
  have ne: "\<not> no_candidates ([''C''], [ex_cand 3 ''C''], [[3, 3 :: real]])"
    by (simp add: no_candidates_def)
  from T [where n = 0 and st_prev = st_prev
      and new = "([''C''], [ex_cand 3 ''C''], [[3, 3]])" and m = "metrics st",
      THEN conjunct2, THEN conjunct1] nr prev sv ne o
  obtain st' where
    os': "optimize_state ?cfg ex_feasible ?inputs ?pool ?tgts ?seqs ?tgts = Inr st'" and
    m: "metrics st = make_metrics (pareto_targets st') (num_rounds ?cfg)
          (\<Sum>q = 1..num_rounds ?cfg. res_bb_evals (?inputs q))"
    by blast
  from os os' have "st' = st" by simp
  then have m': "metrics st = make_metrics (pareto_targets st) 1 4"
    using m nr s4 by simp
  show ?thesis
    using os o r t s4 nr m'
    by (intro exI [of _ st] exI [of _ "metrics st"]) simp
qed

text \<open>
  Claim C5, at a failing input. One round over a pool of one candidate of sequence \<open>A\<close>,
  which is also the only sequence observed. The inner optimization of round 1 proposes one
  feasible candidate of the same sequence \<open>A\<close>, which the novelty filter removes: the round
  is executed (the round index is 1 and its 4 evaluations are counted) and line 249 builds
  and logs the record of round 1, the third record of the log, but does not assign it to
  \<^verbatim>\<open>metrics\<close>, so that \<open>optimize\<close> returns the record of round 0, with round index 0 and
  no evaluation. The same record of round 0 is returned when the only proposal of round 1
  is infeasible.
\<close>

theorem optimize_returns_earlier_record:
  "num_rounds (ex_config 1 1 1) = 1 \<and>
   optimize (ex_config 1 1 1) ex_feasible (\<lambda>r. ex_input [ex_cand 2 ''A''] [[0, 0]])
     [ex_cand 1 ''A''] [[1, 1]] [''A''] [[1, 1]] = Inr (make_metrics [[1, 1]] 0 0) \<and>
   bind_err (optimize_state (ex_config 1 1 1) ex_feasible
       (\<lambda>r. ex_input [ex_cand 2 ''A''] [[0, 0]])
       [ex_cand 1 ''A''] [[1, 1]] [''A''] [[1, 1]])
     (\<lambda>st. Inr (wandb_log st, round_idx st, total_bb_evals st))
   = Inr ([CandidateRow 0 (ex_cand 1 ''A'') [1, 1], OptMetrics (make_metrics [[1, 1]] 0 0),
           OptMetrics (make_metrics [[1, 1]] 1 4)], 1, 4) \<and>
   optimize (ex_config 1 1 1) ex_feasible (\<lambda>r. ex_input [ex_cand 2 ''X''] [[0, 0]])
     [ex_cand 1 ''A''] [[1, 1]] [''A''] [[1, 1]] = Inr (make_metrics [[1, 1]] 0 0) \<and>
   m_round_idx (make_metrics [[1, 1]] 0 0) = 0 \<and>
   m_round_idx (make_metrics [[1, 1]] 1 4) = 1"
  by (simp add: model_defs)

end
